theory Spec2Isabelle
  imports Complex_Main
begin

section \<open>Data model of \<open>model.py\<close>\<close>

text \<open>
  The hyperparameter namespaces \<open>h_parser\<close>, \<open>a_parser\<close> and \<open>f_parser\<close> of a
  \<open>SingingModel\<close> carry the fields that \<open>build_model\<close>, \<open>train_model\<close>,
  \<open>get_generator\<close> and \<open>get_receptive_field\<close> read.  Python integers are
  unbounded, so they are \<open>int\<close>; Python floats are idealised as \<open>real\<close>.
\<close>

record m_params =
  levels :: int
  blocks :: int
  dil_chan :: int
  res_chan :: int
  skip_chan :: int
  out_chan :: int
  init_kernel :: int
  kernel :: int
  l2_decay :: real
  kernel_init :: string
  start_pad :: int
  epochs :: int
  learn_rate :: real
  temp :: real

text \<open>The fields of \<open>m_parser\<close> that the class reads.\<close>

record main_params =
  model_dir :: string
  mcep_order :: int
  ap_channels :: int

subsection \<open>Python's \<open>str\<close> on integers\<close>

fun str_nat :: "nat \<Rightarrow> string" where
  "str_nat n =
     (if n < 10 then [char_of (48 + n)]
      else str_nat (n div 10) @ [char_of (48 + n mod 10)])"

definition str_int :: "int \<Rightarrow> string" where
  "str_int i = (if i < 0 then CHR ''-'' # str_nat (nat (- i)) else str_nat (nat i))"

section \<open>The receptive field\<close>

text \<open>
  \<open>get_receptive_field\<close>, lines 257 to 281.  The inner loop
  \<^verbatim>\<open>for j in range(neural_levels)\<close> adds \<open>add_scope\<close> and doubles it; the outer
  loop \<^verbatim>\<open>for i in range(m_params.blocks)\<close> restarts \<open>add_scope\<close> at
  \<open>kernel - 1\<close> and gives the last block one level fewer.  A \<open>range\<close> over a
  non-positive bound is empty, which the guards \<open>j < neural_levels\<close> and
  \<open>i < blocks\<close> reproduce.
\<close>

function rf_levels_loop :: "int \<Rightarrow> int \<Rightarrow> int \<Rightarrow> int \<Rightarrow> int" where
  "rf_levels_loop j neural_levels receptive_field add_scope =
     (if j < neural_levels
      then rf_levels_loop (j + 1) neural_levels (receptive_field + add_scope) (add_scope * 2)
      else receptive_field)"
  by pat_completeness auto
termination
  by (relation "measure (\<lambda>(j, neural_levels, _, _). nat (neural_levels - j))") auto

function rf_blocks_loop :: "m_params \<Rightarrow> int \<Rightarrow> int \<Rightarrow> int" where
  "rf_blocks_loop p i receptive_field =
     (if i < blocks p
      then (let neural_levels = (if i = blocks p - 1 then levels p - 1 else levels p);
                add_scope = kernel p - 1
            in rf_blocks_loop p (i + 1) (rf_levels_loop 0 neural_levels receptive_field add_scope))
      else receptive_field)"
  by pat_completeness auto
termination
  by (relation "measure (\<lambda>(p, i, _). nat (blocks p - i))") auto

definition receptive_field_of :: "m_params \<Rightarrow> int" where
  "receptive_field_of p = rf_blocks_loop p 0 1 + init_kernel p - 1"

text \<open>
  The generation screen \<open>gen_gui\<close> is an object of the user interface that
  \<open>inference\<close> reads and writes: it reads the attribute \<open>kill_signal\<close> once
  in every iteration (another thread may set it between two reads, so the model
  gives the value that the read of iteration \<open>i\<close> sees), and it writes the
  \<open>value\<close> of a progress bar and the \<open>text\<close> of a status label, both found in
  \<open>gen_gui.ids\<close> under a name.
\<close>

record gen_gui =
  kill_signal :: "nat \<Rightarrow> bool"
  bar_value :: "string \<Rightarrow> int"
  status_text :: "string \<Rightarrow> string"

text \<open>
  A \<open>SingingModel\<close>: the three per-variant hyperparameter sets, the main
  parser, the optional generation screen and the directory of its checkpoints.
  \<open>model_type\<close> is \<open>0\<close> (harmonic), \<open>1\<close> (aperiodic) or anything else
  (frequency).
\<close>

record singing_model =
  name :: string
  m_parser :: main_params
  h_parser :: m_params
  a_parser :: m_params
  f_parser :: m_params
  gen_gui :: "gen_gui option"
  model_path :: string

definition params_of :: "singing_model \<Rightarrow> int \<Rightarrow> m_params" where
  "params_of self model_type =
     (if model_type = 0 then h_parser self
      else if model_type = 1 then a_parser self
      else f_parser self)"

definition get_receptive_field :: "singing_model \<Rightarrow> int \<Rightarrow> int" where
  "get_receptive_field self model_type = receptive_field_of (params_of self model_type)"

subsection \<open>The dilated convolutions of \<open>build_model\<close>\<close>

text \<open>
  \<open>build_model\<close>, lines 120 to 163, creates one causal dilated \<open>Conv1D\<close> per
  block and level, named \<open>dilated_conv_Block_i_Level_j\<close>, with kernel size
  \<open>m_params.kernel\<close> and the current \<open>dilation_rate\<close>, which starts at \<open>1\<close> in
  every block and is doubled after every level.  \<open>dilated_convs\<close> lists these
  layers in the order of their creation.
\<close>

record conv_layer =
  layer_name :: string
  kernel_size :: int
  dilation_rate :: int

function bm_levels_loop :: "m_params \<Rightarrow> int \<Rightarrow> int \<Rightarrow> int \<Rightarrow> int \<Rightarrow> conv_layer list" where
  "bm_levels_loop p i j neural_levels dilation =
     (if j < neural_levels
      then \<lparr>layer_name = ''dilated_conv'' @ ''_Block_'' @ str_int i @ ''_Level_'' @ str_int j,
            kernel_size = kernel p,
            dilation_rate = dilation\<rparr>
           # bm_levels_loop p i (j + 1) neural_levels (dilation * 2)
      else [])"
  by pat_completeness auto
termination
  by (relation "measure (\<lambda>(p, i, j, neural_levels, _). nat (neural_levels - j))") auto

function bm_blocks_loop :: "m_params \<Rightarrow> int \<Rightarrow> conv_layer list" where
  "bm_blocks_loop p i =
     (if i < blocks p
      then (let neural_levels = (if i = blocks p - 1 then levels p - 1 else levels p)
            in bm_levels_loop p i 0 neural_levels 1 @ bm_blocks_loop p (i + 1))
      else [])"
  by pat_completeness auto
termination
  by (relation "measure (\<lambda>(p, i). nat (blocks p - i))") auto

definition dilated_convs :: "m_params \<Rightarrow> conv_layer list" where
  "dilated_convs p = bm_blocks_loop p 0"

text \<open>A hyperparameter set is valid when its four structural fields are at least one.\<close>

definition valid_params :: "m_params \<Rightarrow> bool" where
  "valid_params p \<longleftrightarrow> 1 \<le> blocks p \<and> 1 \<le> levels p \<and> 1 \<le> kernel p \<and> 1 \<le> init_kernel p"

text \<open>The number of levels of block \<open>b\<close>, as both \<open>build_model\<close> and
  \<open>get_receptive_field\<close> choose it.\<close>

definition levels_of_block :: "m_params \<Rightarrow> int \<Rightarrow> int" where
  "levels_of_block p b = (if b = blocks p - 1 then levels p - 1 else levels p)"

section \<open>The learning-rate schedule\<close>

text \<open>
  \<open>lr_scheduler\<close>, lines 179 to 181.  \<open>train_model\<close> hands it to Keras'
  \<open>LearningRateScheduler\<close>, which calls it with the index of the epoch (counted
  from 0) and a learning rate.
\<close>

definition lr_scheduler :: "nat \<Rightarrow> real \<Rightarrow> real" where
  "lr_scheduler epoch lr = lr / (1 + 0.00001 * real epoch)"

text \<open>
  The callback protocol of \<open>LearningRateScheduler(schedule)\<close>, as Keras documents
  it: at the beginning of every epoch the callback reads the optimizer's
  current learning rate, calls \<open>schedule(epoch, lr)\<close> with it and stores the
  result as the optimizer's learning rate.  \<open>fit_learning_rate lr0 e\<close> is the
  rate in force during epoch \<open>e\<close> of \<open>model.fit\<close> when the optimizer starts at
  \<open>lr0\<close>; \<open>train_model\<close> starts a fresh model at \<open>m_params.learn_rate\<close>.
\<close>

definition on_epoch_begin :: "(nat \<Rightarrow> real \<Rightarrow> real) \<Rightarrow> nat \<Rightarrow> real \<Rightarrow> real" where
  "on_epoch_begin schedule epoch optimizer_lr = schedule epoch optimizer_lr"

fun fit_learning_rate :: "real \<Rightarrow> nat \<Rightarrow> real" where
  "fit_learning_rate lr0 0 = on_epoch_begin lr_scheduler 0 lr0"
| "fit_learning_rate lr0 (Suc e) = on_epoch_begin lr_scheduler (Suc e) (fit_learning_rate lr0 e)"

definition train_model_learning_rate :: "m_params \<Rightarrow> nat \<Rightarrow> real" where
  "train_model_learning_rate p e = fit_learning_rate (learn_rate p) e"

section \<open>Sampling from the mixture density\<close>

text \<open>
  A tensor is the list of its elements; the backend operations that
  \<open>sample_output\<close> uses work element by element.  A two-dimensional array is
  the list of its rows (time steps), each row the list of its channels; the
  leading batch axis of length one that \<open>expand_dims\<close> adds and \<open>squeeze\<close>
  removes is left out.
\<close>

type_synonym tensor = "real list"
type_synonym array2d = "real list list"

datatype error = SystemExit | IndexError | ValueError

definition zeros_like :: "tensor \<Rightarrow> tensor" where
  "zeros_like t = map (\<lambda>_. 0) t"

definition t_add :: "tensor \<Rightarrow> tensor \<Rightarrow> tensor" where
  "t_add a b = map2 (+) a b"

definition t_mul :: "tensor \<Rightarrow> tensor \<Rightarrow> tensor" where
  "t_mul a b = map2 (*) a b"

definition k_less :: "tensor \<Rightarrow> tensor \<Rightarrow> bool list" where
  "k_less a b = map2 (<) a b"

definition greater_equal :: "tensor \<Rightarrow> tensor \<Rightarrow> bool list" where
  "greater_equal a b = map2 (\<ge>) a b"

definition logical_and :: "bool list \<Rightarrow> bool list \<Rightarrow> bool list" where
  "logical_and a b = map2 (\<and>) a b"

definition cast_float64 :: "bool list \<Rightarrow> tensor" where
  "cast_float64 m = map of_bool m"

text \<open>
  The result of \<open>multi_params(output, temp)\<close>: three sequences, indexed by the
  mixture component, of tensors of one shape.  \<open>multi_params\<close> itself lives in
  \<open>model_utils\<close>; \<open>sample_output\<close> takes it as a parameter here.
\<close>

record mixture =
  means :: "tensor list"
  sigmas :: "tensor list"
  weights :: "tensor list"

text \<open>
  The random numbers of one call of \<open>sample_output\<close>: the uniform draw of
  every element, and the standard normal draw of every element in each of the
  four calls of \<open>random_normal\<close>, which returns \<open>mean + stddev * z\<close> element by
  element.
\<close>

record draws =
  uniform :: "nat \<Rightarrow> real"
  normal :: "nat \<Rightarrow> nat \<Rightarrow> real"

definition random_uniform :: "draws \<Rightarrow> nat \<Rightarrow> tensor" where
  "random_uniform d shape = map (uniform d) [0..<shape]"

definition random_normal :: "draws \<Rightarrow> nat \<Rightarrow> tensor \<Rightarrow> tensor \<Rightarrow> tensor" where
  "random_normal d k mean stddev =
     map2 (\<lambda>z (m, s). m + s * z) (map (normal d k) [0..<length mean]) (zip mean stddev)"

text \<open>Lines 68 to 70: the weighted expectation \<open>out\<close>, starting from the scalar 0.\<close>

definition weighted_expectation :: "mixture \<Rightarrow> tensor" where
  "weighted_expectation mix =
     fold (\<lambda>k out. t_add out (t_mul (means mix ! k) (weights mix ! k))) [1..<4]
       (map (\<lambda>x. 0 + x) (t_mul (means mix ! 0) (weights mix ! 0)))"

text \<open>Lines 77 to 79: the sum of the weights of the components before \<open>k\<close>.\<close>

definition mask_set_of :: "tensor list \<Rightarrow> nat \<Rightarrow> tensor" where
  "mask_set_of ws k =
     fold (\<lambda>i mask_set. t_add mask_set (ws ! i)) [0..<k] (zeros_like (ws ! k))"

text \<open>Lines 80 to 83: the mask of component \<open>k\<close>, 1.0 where it is selected.\<close>

definition mask_of :: "tensor \<Rightarrow> tensor list \<Rightarrow> nat \<Rightarrow> tensor" where
  "mask_of random ws k =
     (let mask_set = mask_set_of ws k;
          mask_a = k_less random (t_add (ws ! k) mask_set);
          mask_b = greater_equal random mask_set;
          mask = logical_and mask_a mask_b
      in cast_float64 mask)"

text \<open>
  \<open>sample_output\<close>, lines 62 to 86.  \<open>output[:, -1, :]\<close> fails on an empty time
  axis, and indexing \<open>means\<close>, \<open>sigmas\<close> or \<open>weights\<close> with \<open>k < 4\<close> fails when
  \<open>multi_params\<close> returns fewer than four components.  The expectation \<open>out\<close>
  is computed and not used again.
\<close>

definition sample_output ::
  "draws \<Rightarrow> (tensor \<Rightarrow> real \<Rightarrow> mixture) \<Rightarrow> array2d \<Rightarrow> real \<Rightarrow> error + tensor" where
  "sample_output d multi_params output temp_value =
     (if output = [] then Inl IndexError
      else
        let output = last output;
            mix = multi_params output temp_value
        in if length (means mix) < 4 \<or> length (sigmas mix) < 4 \<or> length (weights mix) < 4
           then Inl IndexError
           else
             let out = weighted_expectation mix;
                 spectral_value = zeros_like (means mix ! 0);
                 random = random_uniform d (length (weights mix ! 0))
             in Inr (fold (\<lambda>k spectral_value.
                        let mask = mask_of random (weights mix) k;
                            distribution = random_normal d k (means mix ! k) (sigmas mix ! k)
                        in t_add spectral_value (t_mul mask distribution))
                      [0..<4] spectral_value))"

text \<open>
  \<open>get_generator\<close>, lines 235 to 255: the checkpoint of the variant is loaded
  from its file, or the process exits when the file is missing, and the
  generator is the loaded network followed by \<open>sample_output\<close> at the variant's
  temperature.  A network maps the input window and the label window to its raw
  output over time.  The environment holds the checkpoint files, \<open>multi_params\<close>
  and the random draws of every call of the generator.
\<close>

type_synonym network = "array2d \<Rightarrow> array2d \<Rightarrow> array2d"
type_synonym generator = "nat \<Rightarrow> array2d \<Rightarrow> array2d \<Rightarrow> error + tensor"

record environment =
  files :: "string \<Rightarrow> network option"
  multi_params :: "tensor \<Rightarrow> real \<Rightarrow> mixture"
  rng :: "nat \<Rightarrow> draws"

definition get_generator :: "environment \<Rightarrow> singing_model \<Rightarrow> int \<Rightarrow> error + generator" where
  "get_generator env self model_type =
     (let (model_loc, temp_value) =
            (if model_type = 0 then (model_path self @ ''/harmonic_model.h5'', temp (h_parser self))
             else if model_type = 1 then (model_path self @ ''/aperiodic_model.h5'', temp (a_parser self))
             else (model_path self @ ''/frequency_model.h5'', temp (f_parser self)))
      in case files env model_loc of
           None \<Rightarrow> Inl SystemExit
         | Some model \<Rightarrow>
             Inr (\<lambda>call model_input labels.
                    sample_output (rng env call) (multi_params env) (model model_input labels) temp_value))"

section \<open>Autoregressive inference\<close>

subsection \<open>The array operations\<close>

text \<open>Python's slice \<open>xs[start:stop]\<close>: a negative bound counts from the end, and
  both bounds are clipped to the length.\<close>

definition py_slice :: "'a list \<Rightarrow> int \<Rightarrow> int \<Rightarrow> 'a list" where
  "py_slice xs start stop =
     (let n = int (length xs);
          s = (if start < 0 then max (start + n) 0 else min start n);
          e = (if stop < 0 then max (stop + n) 0 else min stop n)
      in take (nat (e - s)) (drop (nat s) xs))"

text \<open>\<open>np.concatenate([a, b], axis=1)\<close> needs as many rows in \<open>a\<close> as in \<open>b\<close>.\<close>

definition concatenate_axis1 :: "array2d \<Rightarrow> array2d \<Rightarrow> error + array2d" where
  "concatenate_axis1 a b = (if length a \<noteq> length b then Inl ValueError else Inr (map2 (@) a b))"

text \<open>\<open>np.pad(a, ((1, 0), (0, 0)))\<close>: one row of zeros before the first row.  The
  array is never empty where \<open>inference\<close> pads it.\<close>

definition np_pad_top :: "array2d \<Rightarrow> array2d" where
  "np_pad_top a = replicate (case a of [] \<Rightarrow> 0 | r # _ \<Rightarrow> length r) 0 # a"

text \<open>\<open>output[i, :] = generated\<close>, where \<open>generated\<close> has the shape \<open>(1, c)\<close>: the
  row is stored when \<open>c\<close> is the width of \<open>output\<close>, a single value is
  broadcast over the row, and any other width is refused.\<close>

definition assign_row :: "array2d \<Rightarrow> nat \<Rightarrow> nat \<Rightarrow> tensor \<Rightarrow> error + array2d" where
  "assign_row output i channels generated =
     (if length generated = channels then Inr (output[i := generated])
      else if length generated = 1 then Inr (output[i := replicate channels (hd generated)])
      else Inl ValueError)"

subsection \<open>The generation loop\<close>

text \<open>What the loop of \<open>inference\<close> reads and does not change.\<close>

record loop_ctx =
  generator :: generator
  label_data :: array2d
  spectral_data :: "array2d option"
  receptive_field :: int
  channels :: nat
  audio_length :: nat
  progress_bar :: string
  progress_status :: string
  model_status_type :: string

text \<open>What the loop changes: the input window of the next step, the output
  array, the screen, and the record of the arguments of every call of
  \<open>generator.predict\<close> (input window and label window), in the order of the
  calls.\<close>

record loop_state =
  model_input :: array2d
  output_array :: array2d
  predict_calls :: "(array2d \<times> array2d) list"
  gui :: "gen_gui option"

text \<open>Lines 323 to 330.\<close>

definition label_window :: "array2d \<Rightarrow> int \<Rightarrow> nat \<Rightarrow> array2d" where
  "label_window labels rf i =
     (let (start, stop) =
            (if int i < rf then (0, int i + 1) else (int i + 1 - rf, int i + 1))
      in py_slice labels start stop)"

text \<open>Lines 338 to 348.\<close>

definition with_spectral :: "array2d option \<Rightarrow> int \<Rightarrow> int \<Rightarrow> array2d \<Rightarrow> error + array2d" where
  "with_spectral spectral start stop window =
     (case spectral of
        None \<Rightarrow> Inr window
      | Some sd \<Rightarrow> concatenate_axis1 window (py_slice sd start stop))"

definition next_input :: "array2d option \<Rightarrow> int \<Rightarrow> nat \<Rightarrow> array2d \<Rightarrow> error + array2d" where
  "next_input spectral rf i out =
     (if int i < rf - 1
      then (case with_spectral spectral 0 (int i + 1) (py_slice out 0 (int i + 1)) of
              Inl e \<Rightarrow> Inl e
            | Inr window \<Rightarrow> Inr (np_pad_top window))
      else with_spectral spectral (int i + 1 - rf) (int i + 1)
             (py_slice out (int i + 1 - rf) (int i + 1)))"

text \<open>Lines 355 and 356.  The percentage is \<open>int((i / audio_length) * 100)\<close>,
  here in exact arithmetic.\<close>

definition report_progress :: "loop_ctx \<Rightarrow> nat \<Rightarrow> gen_gui \<Rightarrow> gen_gui" where
  "report_progress c i g =
     (let v = \<lfloor>real i / real (audio_length c) * 100\<rfloor>
      in g\<lparr>bar_value := (bar_value g)(progress_bar c := v),
           status_text := (status_text g)
             (progress_status c := model_status_type c @ '' progress: '' @ str_int v @ ''%'')\<rparr>)"

text \<open>One iteration, lines 323 to 356.  The second component of the result tells
  whether the iteration returned \<open>None\<close> on the kill signal.\<close>

definition loop_body :: "loop_ctx \<Rightarrow> nat \<Rightarrow> loop_state \<Rightarrow> error + (loop_state \<times> bool)" where
  "loop_body c i st =
     (let labels = label_window (label_data c) (receptive_field c) i
      in case generator c i (model_input st) labels of
           Inl e \<Rightarrow> Inl e
         | Inr generated \<Rightarrow>
             (case assign_row (output_array st) i (channels c) generated of
                Inl e \<Rightarrow> Inl e
              | Inr out \<Rightarrow>
                  (case next_input (spectral_data c) (receptive_field c) i out of
                     Inl e \<Rightarrow> Inl e
                   | Inr window \<Rightarrow>
                       (let st' = st\<lparr>model_input := window, output_array := out,
                                     predict_calls := predict_calls st @ [(model_input st, labels)]\<rparr>
                        in case gui st of
                             None \<Rightarrow> Inr (st', False)
                           | Some g \<Rightarrow>
                               if kill_signal g i then Inr (st', True)
                               else Inr (st'\<lparr>gui := Some (report_progress c i g)\<rparr>, False)))))"

function inference_loop :: "loop_ctx \<Rightarrow> nat \<Rightarrow> loop_state \<Rightarrow> error + (loop_state \<times> bool)" where
  "inference_loop c i st =
     (if i < audio_length c
      then (case loop_body c i st of
              Inl e \<Rightarrow> Inl e
            | Inr (st', killed) \<Rightarrow> if killed then Inr (st', True) else inference_loop c (Suc i) st')
      else Inr (st, False))"
  by pat_completeness auto
termination
  by (relation "measure (\<lambda>(c, i, _). audio_length c - i)") auto

text \<open>
  \<open>inference\<close>, lines 283 to 360.  The result holds the returned value
  (\<open>None\<close> for Python's \<open>None\<close>), the calls of the generator and the screen as
  the run leaves it.  \<open>np.zeros\<close> refuses a negative dimension.
\<close>

record inference_result =
  returned :: "array2d option"
  generator_calls :: "(array2d \<times> array2d) list"
  screen :: "gen_gui option"

text \<open>Lines 289 to 297: the width of the output and of the first input window.\<close>

definition channel_counts :: "singing_model \<Rightarrow> int \<Rightarrow> int \<times> int" where
  "channel_counts self model_type =
     (if model_type = 0 then (mcep_order (m_parser self), mcep_order (m_parser self))
      else if model_type = 1
        then (ap_channels (m_parser self),
              mcep_order (m_parser self) + ap_channels (m_parser self))
      else (1, 1))"

text \<open>Lines 299 to 315: the widgets of the variant and its name on the screen.\<close>

definition progress_widgets :: "int \<Rightarrow> string \<times> string \<times> string" where
  "progress_widgets model_type =
     (if model_type = 0
        then (''s_progress_bar'', ''s_progress_value'', ''Spectral Envelope'')
      else if model_type = 1
        then (''a_progress_bar'', ''a_progress_value'', ''Aperiodic Envelope'')
      else (''f_progress_bar'', ''f_progress_value'', ''Frequency''))"

definition inference ::
  "environment \<Rightarrow> singing_model \<Rightarrow> array2d \<Rightarrow> int \<Rightarrow> array2d option \<Rightarrow> error + inference_result" where
  "inference env self labels model_type spectral =
     (case get_generator env self model_type of
        Inl e \<Rightarrow> Inl e
      | Inr gen \<Rightarrow>
          (let rf = get_receptive_field self model_type;
               (chans, init_channels) = channel_counts self model_type;
               (bar, status, status_type) = progress_widgets model_type;
               n = length labels
           in if init_channels < 0 \<or> chans < 0 then Inl ValueError
              else
                (case inference_loop
                        \<lparr>generator = gen, label_data = labels, spectral_data = spectral,
                         receptive_field = rf, channels = nat chans, audio_length = n,
                         progress_bar = bar, progress_status = status,
                         model_status_type = status_type\<rparr>
                        0
                        \<lparr>model_input = [replicate (nat init_channels) 0],
                         output_array = replicate n (replicate (nat chans) 0),
                         predict_calls = [], gui = gen_gui self\<rparr> of
                   Inl e \<Rightarrow> Inl e
                 | Inr (st, killed) \<Rightarrow>
                     if killed
                     then Inr \<lparr>returned = None, generator_calls = predict_calls st,
                               screen = gui st\<rparr>
                     else Inr \<lparr>returned = Some (output_array st), generator_calls = predict_calls st,
                               screen = map_option
                                 (\<lambda>g. g\<lparr>status_text := (status_text g)
                                          (status := status_type @ '' generation complete'')\<rparr>)
                                 (gui st)\<rparr>)))"

text \<open>The loop context and the loop state that \<open>inference\<close> starts from, by
  name.\<close>

definition run_ctx ::
  "generator \<Rightarrow> singing_model \<Rightarrow> array2d \<Rightarrow> int \<Rightarrow> array2d option \<Rightarrow> loop_ctx" where
  "run_ctx gen self labels model_type spectral =
     \<lparr>generator = gen, label_data = labels, spectral_data = spectral,
      receptive_field = get_receptive_field self model_type,
      channels = nat (fst (channel_counts self model_type)), audio_length = length labels,
      progress_bar = fst (progress_widgets model_type),
      progress_status = fst (snd (progress_widgets model_type)),
      model_status_type = snd (snd (progress_widgets model_type))\<rparr>"

definition run_start :: "singing_model \<Rightarrow> array2d \<Rightarrow> int \<Rightarrow> loop_state" where
  "run_start self labels model_type =
     \<lparr>model_input = [replicate (nat (snd (channel_counts self model_type))) 0],
      output_array = replicate (length labels) (replicate (nat (fst (channel_counts self model_type))) 0),
      predict_calls = [], gui = gen_gui self\<rparr>"

section \<open>Predicates of the statements\<close>


text \<open>A generator that answers every call with a row of \<open>chans\<close> values.\<close>

definition generator_total :: "generator \<Rightarrow> nat \<Rightarrow> bool" where
  "generator_total gen chans \<longleftrightarrow>
     (\<forall>call window labels. \<exists>g. gen call window labels = Inr g \<and> length g = chans)"

text \<open>Companion data, when given, has a row for every time step.\<close>

definition spectral_covers :: "array2d option \<Rightarrow> nat \<Rightarrow> bool" where
  "spectral_covers spectral n \<longleftrightarrow> (case spectral of None \<Rightarrow> True | Some sd \<Rightarrow> n \<le> length sd)"

text \<open>The rows that are fed back: every generated row, followed by the companion
  channels of its time step when companion data is given.\<close>

definition history_rows :: "array2d option \<Rightarrow> array2d \<Rightarrow> array2d" where
  "history_rows spectral out = (case spectral of None \<Rightarrow> out | Some sd \<Rightarrow> map2 (@) out sd)"

text \<open>The input window of step \<open>t\<close>, from the rows generated before \<open>t\<close>.\<close>

definition input_window :: "array2d \<Rightarrow> array2d option \<Rightarrow> int \<Rightarrow> nat \<Rightarrow> array2d \<Rightarrow> array2d" where
  "input_window first spectral rf t out =
     (if t = 0 then first
      else if int t < rf then np_pad_top (take t (history_rows spectral out))
      else drop (nat (int t - rf)) (take t (history_rows spectral out)))"

text \<open>The invariant of the generation loop before iteration \<open>i\<close>.\<close>

definition loop_inv :: "loop_ctx \<Rightarrow> array2d \<Rightarrow> nat \<Rightarrow> loop_state \<Rightarrow> bool" where
  "loop_inv c first i st \<longleftrightarrow>
     i \<le> audio_length c
     \<and> length (output_array st) = audio_length c
     \<and> length (predict_calls st) = i
     \<and> model_input st = input_window first (spectral_data c) (receptive_field c) i (output_array st)
     \<and> (\<forall>t<i. predict_calls st ! t =
                 (input_window first (spectral_data c) (receptive_field c) t (output_array st),
                  label_window (label_data c) (receptive_field c) t)
              \<and> generator c t
                   (input_window first (spectral_data c) (receptive_field c) t (output_array st))
                   (label_window (label_data c) (receptive_field c) t)
                 = Inr (output_array st ! t))"

subsection \<open>Example inputs\<close>

text \<open>The hyperparameters of the specification's worked example (levels 2,
  blocks 2, kernel 2, initial kernel 1), and a model that uses them for all
  three variants.\<close>

definition example_params :: m_params where
  "example_params =
     \<lparr>levels = 2, blocks = 2, dil_chan = 4, res_chan = 4, skip_chan = 4, out_chan = 12,
      init_kernel = 1, kernel = 2, l2_decay = 0, kernel_init = ''glorot_uniform'',
      start_pad = 0, epochs = 1, learn_rate = 1 / 1000, temp = 1\<rparr>"

definition example_model :: singing_model where
  "example_model =
     \<lparr>name = ''voice'',
      m_parser = \<lparr>model_dir = ''models'', mcep_order = 1, ap_channels = 1\<rparr>,
      h_parser = example_params, a_parser = example_params, f_parser = example_params,
      gen_gui = None, model_path = ''models/voice''\<rparr>"

text \<open>A mixture of four equal weights over one element, with means 0, 1, 2, 3;
  the same with the last weight rounded down; draws that are the same for every
  element, with no Gaussian noise.\<close>

definition uniform_mixture :: mixture where
  "uniform_mixture =
     \<lparr>means = [[0], [1], [2], [3]], sigmas = [[1], [1], [1], [1]],
      weights = [[1 / 4], [1 / 4], [1 / 4], [1 / 4]]\<rparr>"


definition fixed_draws :: "real \<Rightarrow> draws" where
  "fixed_draws u = \<lparr>uniform = (\<lambda>_. u), normal = (\<lambda>_ _. 0)\<rparr>"

text \<open>An environment with a harmonic checkpoint whose network returns one raw
  row, and the generator that \<open>get_generator\<close> builds from it.\<close>

definition example_network :: network where
  "example_network window labels = [[0]]"

definition example_env :: environment where
  "example_env =
     \<lparr>files = (\<lambda>path. if path = ''models/voice/harmonic_model.h5'' then Some example_network
                      else None),
      multi_params = (\<lambda>_ _. uniform_mixture),
      rng = (\<lambda>_. fixed_draws (3 / 10))\<rparr>"

definition example_generator :: generator where
  "example_generator call window labels =
     sample_output (fixed_draws (3 / 10)) (\<lambda>_ _. uniform_mixture) (example_network window labels) 1"

text \<open>A screen on which the kill signal is raised in iteration 5 and never
  before.\<close>

definition example_gui :: gen_gui where
  "example_gui =
     \<lparr>kill_signal = (\<lambda>i. i = 5), bar_value = (\<lambda>_. 0), status_text = (\<lambda>_. [])\<rparr>"

section \<open>Properties of the receptive field\<close>

declare rf_levels_loop.simps [simp del]
declare rf_blocks_loop.simps [simp del]
declare bm_levels_loop.simps [simp del]
declare bm_blocks_loop.simps [simp del]
declare inference_loop.simps [simp del]

lemma int_interval_first:
  fixes i n :: int
  shows "i < n \<Longrightarrow> {i..<n} = insert i {i + 1..<n}"
  by auto

lemma sum_int_interval_first:
  fixes i n :: int and f :: "int \<Rightarrow> int"
  assumes "i < n"
  shows "(\<Sum>b\<in>{i..<n}. f b) = f i + (\<Sum>b\<in>{i + 1..<n}. f b)"
proof -
  have "(\<Sum>b\<in>insert i {i + 1..<n}. f b) = f i + (\<Sum>b\<in>{i + 1..<n}. f b)"
    by (rule sum.insert) auto
  with assms show ?thesis
    by (simp add: int_interval_first)
qed

lemma rf_levels_loop_sum:
  "rf_levels_loop j n r a = r + (\<Sum>l\<in>{j..<n}. a * 2 ^ nat (l - j))"
proof (induction j n r a rule: rf_levels_loop.induct)
  case (1 j n r a)
  show ?case
  proof (cases "j < n")
    case False
    then show ?thesis
      by (simp add: rf_levels_loop.simps)
  next
    case True
    have shift: "(\<Sum>l\<in>{j + 1..<n}. a * 2 * 2 ^ nat (l - (j + 1)))
          = (\<Sum>l\<in>{j + 1..<n}. a * 2 ^ nat (l - j))"
    proof (rule sum.cong)
      fix l assume "l \<in> {j + 1..<n}"
      then have "nat (l - j) = Suc (nat (l - (j + 1)))"
        by auto
      then show "a * 2 * 2 ^ nat (l - (j + 1)) = a * 2 ^ nat (l - j)"
        by simp
    qed simp
    have "rf_levels_loop j n r a = rf_levels_loop (j + 1) n (r + a) (a * 2)"
      using True by (simp add: rf_levels_loop.simps)
    also have "\<dots> = r + a + (\<Sum>l\<in>{j + 1..<n}. a * 2 * 2 ^ nat (l - (j + 1)))"
      using "1.IH" True by simp
    also have "\<dots> = r + (\<Sum>l\<in>{j..<n}. a * 2 ^ nat (l - j))"
      using True by (simp add: shift sum_int_interval_first)
    finally show ?thesis .
  qed
qed

lemma rf_levels_loop_closed:
  "rf_levels_loop j n r a = r + a * (2 ^ nat (n - j) - 1)"
proof (induction j n r a rule: rf_levels_loop.induct)
  case (1 j n r a)
  show ?case
  proof (cases "j < n")
    case False
    then show ?thesis
      by (simp add: rf_levels_loop.simps)
  next
    case True
    then have step: "nat (n - j) = Suc (nat (n - (j + 1)))"
      by auto
    have "rf_levels_loop j n r a = rf_levels_loop (j + 1) n (r + a) (a * 2)"
      using True by (simp add: rf_levels_loop.simps)
    also have "\<dots> = r + a + a * 2 * (2 ^ nat (n - (j + 1)) - 1)"
      using "1.IH" True by simp
    also have "\<dots> = r + a * (2 ^ nat (n - j) - 1)"
      by (simp add: step algebra_simps)
    finally show ?thesis .
  qed
qed

lemma rf_blocks_loop_sum:
  "rf_blocks_loop p i r =
     r + (\<Sum>b\<in>{i..<blocks p}. \<Sum>l\<in>{0..<levels_of_block p b}. (kernel p - 1) * 2 ^ nat l)"
proof (induction p i r rule: rf_blocks_loop.induct)
  case (1 p i r)
  show ?case
  proof (cases "i < blocks p")
    case False
    then show ?thesis
      by (simp add: rf_blocks_loop.simps)
  next
    case True
    let ?g = "\<lambda>b. \<Sum>l\<in>{0..<levels_of_block p b}. (kernel p - 1) * 2 ^ nat l"
    have "rf_blocks_loop p i r =
            rf_blocks_loop p (i + 1) (rf_levels_loop 0 (levels_of_block p i) r (kernel p - 1))"
      using True by (simp add: rf_blocks_loop.simps [of p i r] levels_of_block_def Let_def)
    also have "\<dots> = rf_levels_loop 0 (levels_of_block p i) r (kernel p - 1)
                       + (\<Sum>b\<in>{i + 1..<blocks p}. ?g b)"
      using "1.IH" [OF True refl refl] by (simp add: levels_of_block_def)
    also have "\<dots> = r + ?g i + (\<Sum>b\<in>{i + 1..<blocks p}. ?g b)"
      by (simp add: rf_levels_loop_sum)
    also have "\<dots> = r + (\<Sum>b\<in>{i..<blocks p}. ?g b)"
      using True by (simp add: sum_int_interval_first)
    finally show ?thesis .
  qed
qed

lemma rf_blocks_loop_closed:
  "rf_blocks_loop p i r =
     (if i < blocks p
      then r + (blocks p - 1 - i) * ((kernel p - 1) * (2 ^ nat (levels p) - 1))
             + (kernel p - 1) * (2 ^ nat (levels p - 1) - 1)
      else r)"
proof (induction p i r rule: rf_blocks_loop.induct)
  case (1 p i r)
  show ?case
  proof (cases "i < blocks p")
    case False
    then show ?thesis
      by (simp add: rf_blocks_loop.simps)
  next
    case True
    note IH = "1.IH" [OF True refl refl]
    show ?thesis
    proof (cases "i = blocks p - 1")
      case True
      have "rf_blocks_loop p i r =
                   rf_blocks_loop p (i + 1) (rf_levels_loop 0 (levels p - 1) r (kernel p - 1))"
        using True \<open>i < blocks p\<close> by (subst rf_blocks_loop.simps) simp
      also have "\<dots> = rf_levels_loop 0 (levels p - 1) r (kernel p - 1)"
        using True by (subst rf_blocks_loop.simps) simp
      finally show ?thesis
        using True by (simp add: rf_levels_loop_closed)
    next
      case False
      with \<open>i < blocks p\<close> have lt: "i + 1 < blocks p"
        by simp
      have "rf_blocks_loop p i r =
              rf_blocks_loop p (i + 1) (rf_levels_loop 0 (levels p) r (kernel p - 1))"
        using False \<open>i < blocks p\<close> by (simp add: rf_blocks_loop.simps [of p i r])
      also have "\<dots> = rf_levels_loop 0 (levels p) r (kernel p - 1)
                         + (blocks p - 1 - (i + 1)) * ((kernel p - 1) * (2 ^ nat (levels p) - 1))
                         + (kernel p - 1) * (2 ^ nat (levels p - 1) - 1)"
        using IH False lt by simp
      finally show ?thesis
        using \<open>i < blocks p\<close> by (simp add: rf_levels_loop_closed algebra_simps)
    qed
  qed
qed

lemma bm_levels_loop_sum:
  "(\<Sum>L\<leftarrow>bm_levels_loop p i j n d. (kernel_size L - 1) * dilation_rate L)
     = (\<Sum>l\<in>{j..<n}. (kernel p - 1) * d * 2 ^ nat (l - j))"
proof (induction p i j n d rule: bm_levels_loop.induct)
  case (1 p i j n d)
  show ?case
  proof (cases "j < n")
    case False
    then show ?thesis
      by (simp add: bm_levels_loop.simps)
  next
    case True
    have shift: "(\<Sum>l\<in>{j + 1..<n}. (kernel p - 1) * (d * 2) * 2 ^ nat (l - (j + 1)))
          = (\<Sum>l\<in>{j + 1..<n}. (kernel p - 1) * d * 2 ^ nat (l - j))"
    proof (rule sum.cong)
      fix l assume "l \<in> {j + 1..<n}"
      then have "nat (l - j) = Suc (nat (l - (j + 1)))"
        by auto
      then show "(kernel p - 1) * (d * 2) * 2 ^ nat (l - (j + 1)) = (kernel p - 1) * d * 2 ^ nat (l - j)"
        by simp
    qed simp
    show ?thesis
      using True "1.IH" [OF True]
      by (simp add: bm_levels_loop.simps [of p i j n d] shift sum_int_interval_first)
  qed
qed

lemma bm_blocks_loop_sum:
  "(\<Sum>L\<leftarrow>bm_blocks_loop p i. (kernel_size L - 1) * dilation_rate L)
     = (\<Sum>b\<in>{i..<blocks p}. \<Sum>l\<in>{0..<levels_of_block p b}. (kernel p - 1) * 2 ^ nat l)"
proof (induction p i rule: bm_blocks_loop.induct)
  case (1 p i)
  show ?case
  proof (cases "i < blocks p")
    case False
    then show ?thesis
      by (simp add: bm_blocks_loop.simps)
  next
    case True
    show ?thesis
      using True "1.IH" [OF True refl]
      by (simp add: bm_blocks_loop.simps [of p i] levels_of_block_def Let_def
          bm_levels_loop_sum sum_int_interval_first)
  qed
qed

text \<open>
  Claim C1.  For every hyperparameter set, \<open>get_receptive_field\<close> returns
  \<open>init_kernel - 1 + 1\<close> plus the sum, over every block \<open>b\<close> and every level \<open>l\<close>
  of that block, of \<open>(kernel - 1)\<close> times the dilation \<open>2 ^ l\<close> of that layer; the
  last block has \<open>levels - 1\<close> levels and every other block has \<open>levels\<close>.  The
  same sum runs over the dilated convolutions that \<open>build_model\<close> creates, with
  their own kernel sizes and dilation rates.  For a harmonic variant with
  levels 2, blocks 2, kernel 2 and initial kernel 1 the result is 5.
\<close>

theorem get_receptive_field_formula:
  "(let p = params_of self model_type in
      get_receptive_field self model_type =
        init_kernel p - 1 + 1
        + (\<Sum>b\<in>{0..<blocks p}.
             \<Sum>l\<in>{0..<(if b = blocks p - 1 then levels p - 1 else levels p)}.
               (kernel p - 1) * 2 ^ nat l)
      \<and> get_receptive_field self model_type =
        init_kernel p - 1 + 1
        + (\<Sum>L\<leftarrow>dilated_convs p. (kernel_size L - 1) * dilation_rate L))
   \<and> get_receptive_field
         (self\<lparr>h_parser := q\<lparr>levels := 2, blocks := 2, kernel := 2, init_kernel := 1\<rparr>\<rparr>) 0 = 5"
proof -
  define p where "p = params_of self model_type"
  have a: "get_receptive_field self model_type =
           init_kernel p - 1 + 1
           + (\<Sum>b\<in>{0..<blocks p}.
                \<Sum>l\<in>{0..<(if b = blocks p - 1 then levels p - 1 else levels p)}.
                  (kernel p - 1) * 2 ^ nat l)"
    unfolding get_receptive_field_def p_def [symmetric] receptive_field_of_def
      rf_blocks_loop_sum levels_of_block_def
    by simp
  then have b: "get_receptive_field self model_type =
           init_kernel p - 1 + 1
           + (\<Sum>L\<leftarrow>dilated_convs p. (kernel_size L - 1) * dilation_rate L)"
    unfolding dilated_convs_def bm_blocks_loop_sum levels_of_block_def
    by simp
  have c: "get_receptive_field
         (self\<lparr>h_parser := q\<lparr>levels := 2, blocks := 2, kernel := 2, init_kernel := 1\<rparr>\<rparr>) 0 = 5"
    by (simp add: get_receptive_field_def params_of_def receptive_field_of_def
        rf_blocks_loop_closed)
  from a b c show ?thesis
    unfolding Let_def p_def by blast
qed

lemma receptive_field_of_closed:
  "receptive_field_of p =
     init_kernel p
     + (if 0 < blocks p
        then (blocks p - 1) * ((kernel p - 1) * (2 ^ nat (levels p) - 1))
             + (kernel p - 1) * (2 ^ nat (levels p - 1) - 1)
        else 0)"
  by (simp add: receptive_field_of_def rf_blocks_loop_closed)

lemma pow2_nat_mono:
  fixes a b :: int
  assumes "a \<le> b"
  shows "(2::int) ^ nat a - 1 \<le> 2 ^ nat b - 1"
proof -
  from assms have "nat a \<le> nat b"
    by simp
  then have "(2::int) ^ nat a \<le> 2 ^ nat b"
    by (simp add: power_increasing)
  then show ?thesis
    by linarith
qed

lemma pow2_nat_nonneg:
  fixes a :: int
  shows "0 \<le> (2::int) ^ nat a - 1"
proof -
  have "(1::int) \<le> 2 ^ nat a"
    by simp
  then show ?thesis
    by linarith
qed

lemma receptive_field_of_mono:
  assumes v: "valid_params p"
    and k: "kernel p \<le> kernel p'"
    and l: "levels p \<le> levels p'"
    and b: "blocks p \<le> blocks p'"
    and i: "init_kernel p \<le> init_kernel p'"
  shows "receptive_field_of p \<le> receptive_field_of p'"
proof -
  define a a' where a_a'_def: "a = kernel p - 1" "a' = kernel p' - 1"
  define X X' where X_X'_def: "X = (2::int) ^ nat (levels p) - 1" "X' = (2::int) ^ nat (levels p') - 1"
  define Y Y' where Y_Y'_def: "Y = (2::int) ^ nat (levels p - 1) - 1"
    "Y' = (2::int) ^ nat (levels p' - 1) - 1"
  define B B' where B_B'_def: "B = blocks p - 1" "B' = blocks p' - 1"
  from v have a0: "0 \<le> a" and B0: "0 \<le> B" and Bp: "0 < blocks p"
    by (simp_all add: valid_params_def a_a'_def B_B'_def)
  from k have aa: "a \<le> a'"
    by (simp add: a_a'_def)
  from b have BB: "B \<le> B'"
    by (simp add: B_B'_def)
  from a0 aa have a0': "0 \<le> a'"
    by simp
  from B0 BB have B0': "0 \<le> B'"
    by simp
  from b Bp have Bp': "0 < blocks p'"
    by simp
  have XX: "X \<le> X'"
    unfolding X_X'_def using l by (rule pow2_nat_mono)
  have X0: "0 \<le> X"
    unfolding X_X'_def by (rule pow2_nat_nonneg)
  from l have "levels p - 1 \<le> levels p' - 1"
    by simp
  then have YY: "Y \<le> Y'"
    unfolding Y_Y'_def by (rule pow2_nat_mono)
  have Y0: "0 \<le> Y"
    unfolding Y_Y'_def by (rule pow2_nat_nonneg)
  have aX: "a * X \<le> a' * X'"
    using aa XX a0' X0 by (rule mult_mono)
  have aY: "a * Y \<le> a' * Y'"
    using aa YY a0' Y0 by (rule mult_mono)
  have aX0: "0 \<le> a * X"
    using a0 X0 by simp
  have "B * (a * X) \<le> B' * (a' * X')"
    using BB aX B0' aX0 by (rule mult_mono)
  with aY i have "init_kernel p + (B * (a * X) + a * Y) \<le> init_kernel p' + (B' * (a' * X') + a' * Y')"
    by linarith
  then show ?thesis
    using Bp Bp'
    by (simp add: receptive_field_of_closed a_a'_def X_X'_def Y_Y'_def B_B'_def)
qed

text \<open>
  Claim C8.  \<open>get_receptive_field\<close> is a function of the four fields levels,
  blocks, kernel and init_kernel of the selected hyperparameter set alone: two
  calls, on any models and model types, whose selected sets agree on these
  fields return the same value.  From a valid set, raising the kernel size, the
  level count or the block count (any of them, the initial kernel unchanged)
  never lowers the result.
\<close>

theorem get_receptive_field_deterministic_monotone:
  fixes self self' :: singing_model and model_type model_type' :: int
  defines "p \<equiv> params_of self model_type" and "p' \<equiv> params_of self' model_type'"
  shows "(levels p = levels p' \<and> blocks p = blocks p' \<and> kernel p = kernel p'
            \<and> init_kernel p = init_kernel p'
          \<longrightarrow> get_receptive_field self model_type = get_receptive_field self' model_type')
       \<and> (valid_params p \<and> kernel p \<le> kernel p' \<and> levels p \<le> levels p'
            \<and> blocks p \<le> blocks p' \<and> init_kernel p = init_kernel p'
          \<longrightarrow> get_receptive_field self model_type \<le> get_receptive_field self' model_type')"
proof -
  have "receptive_field_of p = receptive_field_of p'"
    if "levels p = levels p'" "blocks p = blocks p'" "kernel p = kernel p'"
      "init_kernel p = init_kernel p'"
    using that by (simp add: receptive_field_of_closed)
  moreover have "receptive_field_of p \<le> receptive_field_of p'"
    if "valid_params p" "kernel p \<le> kernel p'" "levels p \<le> levels p'"
      "blocks p \<le> blocks p'" "init_kernel p = init_kernel p'"
    using that by (intro receptive_field_of_mono) simp_all
  ultimately show ?thesis
    unfolding get_receptive_field_def p_def [symmetric] p'_def [symmetric]
    by blast
qed

theorem get_receptive_field_deterministic_monotone_witness:
  "get_receptive_field example_model 0
     = get_receptive_field (example_model\<lparr>name := ''other''\<rparr>) 1
   \<and> get_receptive_field example_model 0
     \<le> get_receptive_field (example_model\<lparr>a_parser := example_params\<lparr>kernel := 3\<rparr>\<rparr>) 1
   \<and> get_receptive_field example_model 0
     \<le> get_receptive_field (example_model\<lparr>a_parser := example_params\<lparr>levels := 3\<rparr>\<rparr>) 1
   \<and> get_receptive_field example_model 0
     \<le> get_receptive_field (example_model\<lparr>a_parser := example_params\<lparr>blocks := 3\<rparr>\<rparr>) 1"
  using get_receptive_field_deterministic_monotone [of example_model 0 "example_model\<lparr>name := ''other''\<rparr>" 1]
    get_receptive_field_deterministic_monotone [of example_model 0 "example_model\<lparr>a_parser := example_params\<lparr>kernel := 3\<rparr>\<rparr>" 1]
    get_receptive_field_deterministic_monotone [of example_model 0 "example_model\<lparr>a_parser := example_params\<lparr>levels := 3\<rparr>\<rparr>" 1]
    get_receptive_field_deterministic_monotone [of example_model 0 "example_model\<lparr>a_parser := example_params\<lparr>blocks := 3\<rparr>\<rparr>" 1]
  by (simp add: params_of_def example_model_def example_params_def valid_params_def)



section \<open>Properties of the learning-rate schedule\<close>

lemma fit_learning_rate_Suc:
  "fit_learning_rate lr0 (Suc e) = fit_learning_rate lr0 e / (1 + 0.00001 * real (Suc e))"
  by (simp add: on_epoch_begin_def lr_scheduler_def)

lemma fit_learning_rate_prod:
  "fit_learning_rate lr0 e = lr0 / (\<Prod>j\<in>{0..e}. (1 + 0.00001 * real j))"
proof (induction e)
  case 0
  show ?case
    by (simp add: on_epoch_begin_def lr_scheduler_def)
next
  case (Suc e)
  have "fit_learning_rate lr0 (Suc e) = fit_learning_rate lr0 e / (1 + 0.00001 * real (Suc e))"
    by (rule fit_learning_rate_Suc)
  also have "\<dots> = lr0 / ((\<Prod>j\<in>{0..e}. (1 + 0.00001 * real j)) * (1 + 0.00001 * real (Suc e)))"
    by (simp only: Suc.IH divide_divide_eq_left)
  also have "\<dots> = lr0 / (\<Prod>j\<in>{0..Suc e}. (1 + 0.00001 * real j))"
    by (simp only: prod.atLeast0_atMost_Suc)
  finally show ?case .
qed

lemma fit_learning_rate_pos:
  "0 < lr0 \<Longrightarrow> 0 < fit_learning_rate lr0 e"
proof (induction e)
  case 0
  then show ?case
    by (simp add: on_epoch_begin_def lr_scheduler_def)
next
  case (Suc e)
  have "0 < 1 + 0.00001 * real (Suc e)"
    by (simp add: add_pos_nonneg)
  with Suc show ?case
    by (simp only: fit_learning_rate_Suc divide_pos_pos)
qed

lemma div_less_self_real:
  fixes x d :: real
  assumes "0 < x" "1 < d"
  shows "x / d < x"
proof -
  from assms have "x * 1 < x * d"
    by (intro mult_strict_left_mono)
  moreover from assms have "0 < d"
    by simp
  ultimately show ?thesis
    by (simp add: pos_divide_less_eq)
qed

lemma fit_learning_rate_below:
  assumes "0 < lr0"
  shows "fit_learning_rate lr0 (Suc e) < lr0"
proof (induction e)
  case 0
  from assms show ?case
    by (simp add: on_epoch_begin_def lr_scheduler_def)
next
  case (Suc e)
  have d: "1 < 1 + 0.00001 * real (Suc (Suc e))"
    by simp
  have p: "0 < fit_learning_rate lr0 (Suc e)"
    using assms by (rule fit_learning_rate_pos)
  have "fit_learning_rate lr0 (Suc (Suc e)) = fit_learning_rate lr0 (Suc e) / (1 + 0.00001 * real (Suc (Suc e)))"
    by (rule fit_learning_rate_Suc)
  also have "\<dots> < fit_learning_rate lr0 (Suc e)"
    using p d by (rule div_less_self_real)
  finally show ?case
    using Suc by simp
qed

text \<open>
  Claim C3 fails as stated: from the initial rate 1 the rate of epoch 2 is
  \<open>1 / (1.00001 * 1.00002)\<close>, not \<open>1 / 1.00002\<close>.
\<close>

theorem lr_schedule_counterexample:
  "fit_learning_rate 1 2 = 10000000000 / 10000300002
   \<and> 1 / (1 + 0.00001 * real 2) = 100000 / 100002
   \<and> fit_learning_rate 1 2 \<noteq> 1 / (1 + 0.00001 * real 2)"
  by (simp add: numeral_2_eq_2 on_epoch_begin_def lr_scheduler_def)

text \<open>
  Claim C3, as the code has it.  The callback passes the optimizer's current
  rate, which the previous epochs have already lowered, so the rate of epoch
  \<open>e\<close> is the rate of epoch \<open>e - 1\<close> divided by \<open>1 + 0.00001 * e\<close>, that is the
  initial rate divided by the product of \<open>1 + 0.00001 * j\<close> over \<open>j \<le> e\<close>.  It
  equals \<open>lr(0) / (1 + 0.00001 * e)\<close> in epochs 0 and 1 only, and is strictly
  smaller from epoch 2 on for a positive initial rate.
\<close>

theorem lr_schedule_compounds:
  "fit_learning_rate lr0 e = lr0 / (\<Prod>j\<in>{0..e}. (1 + 0.00001 * real j))
   \<and> train_model_learning_rate p e = learn_rate p / (\<Prod>j\<in>{0..e}. (1 + 0.00001 * real j))
   \<and> fit_learning_rate lr0 (Suc e) = fit_learning_rate lr0 e / (1 + 0.00001 * real (Suc e))
   \<and> (e \<le> 1 \<longrightarrow> fit_learning_rate lr0 e = lr0 / (1 + 0.00001 * real e))
   \<and> (0 < lr0 \<and> 2 \<le> e \<longrightarrow> fit_learning_rate lr0 e < lr0 / (1 + 0.00001 * real e))"
proof -
  have small: "fit_learning_rate lr0 e = lr0 / (1 + 0.00001 * real e)" if "e \<le> 1"
  proof -
    from that have "e = 0 \<or> e = Suc 0"
      by auto
    then show ?thesis
      by (auto simp: on_epoch_begin_def lr_scheduler_def)
  qed
  have large: "fit_learning_rate lr0 e < lr0 / (1 + 0.00001 * real e)" if "0 < lr0" "2 \<le> e"
  proof -
    from that obtain n where e: "e = Suc (Suc n)"
      by (metis Suc_le_D numeral_2_eq_2 Suc_le_mono)
    have "0 < 1 + 0.00001 * real e"
      by (simp add: add_pos_nonneg)
    moreover have "fit_learning_rate lr0 (Suc n) < lr0"
      using that(1) by (rule fit_learning_rate_below)
    ultimately have "fit_learning_rate lr0 (Suc n) / (1 + 0.00001 * real e) < lr0 / (1 + 0.00001 * real e)"
      by (simp only: divide_strict_right_mono)
    then show ?thesis
      unfolding e by (simp only: fit_learning_rate_Suc)
  qed
  from small large show ?thesis
    using fit_learning_rate_prod fit_learning_rate_Suc
    unfolding train_model_learning_rate_def by blast
qed

theorem lr_schedule_compounds_witness:
  "fit_learning_rate 1 1 = 1 / (1 + 0.00001 * real 1)
   \<and> fit_learning_rate 1 2 < 1 / (1 + 0.00001 * real 2)"
  using lr_schedule_compounds [of 1 1 example_params] lr_schedule_compounds [of 1 2 example_params]
  by simp

section \<open>Properties of the sampling\<close>



























lemma get_generator_example:
  "get_generator example_env example_model 0 = Inr example_generator"
proof -
  have "(\<lambda>call window labels.
           sample_output (rng example_env call) (multi_params example_env)
             (example_network window labels) (temp (h_parser example_model)))
        = example_generator"
    by (intro ext) (simp add: example_generator_def example_env_def example_model_def
        example_params_def)
  then show ?thesis
    by (simp add: get_generator_def example_env_def example_model_def)
qed


section \<open>Properties of the inference loop\<close>

lemma py_slice_nonneg:
  assumes "0 \<le> a" and "0 \<le> b" and "b \<le> int (length xs)"
  shows "py_slice xs a b = drop (nat a) (take (nat b) xs)"
proof (cases "a \<le> int (length xs)")
  case True
  with assms have "py_slice xs a b = take (nat (b - a)) (drop (nat a) xs)"
    by (simp add: py_slice_def Let_def min_def)
  also have "\<dots> = drop (nat a) (take (nat b) xs)"
    using assms by (simp add: drop_take nat_diff_distrib')
  finally show ?thesis .
next
  case False
  with assms have "nat b \<le> nat a" and "length xs \<le> nat a"
    by linarith+
  with False assms show ?thesis
    by (simp add: py_slice_def Let_def min_def)
qed

lemma label_window_eq:
  "label_window labels rf t = py_slice labels (max 0 (int t + 1 - rf)) (int t + 1)"
proof (cases "int t < rf")
  case True
  then have "max 0 (int t + 1 - rf) = 0"
    by simp
  with True show ?thesis
    by (simp add: label_window_def)
next
  case False
  then have "max 0 (int t + 1 - rf) = int t + 1 - rf"
    by simp
  with False show ?thesis
    by (simp add: label_window_def)
qed

lemma take_history_rows_update:
  assumes "t \<le> i"
  shows "take t (history_rows sp (out[i := g])) = take t (history_rows sp out)"
  using assms by (cases sp) (simp_all add: history_rows_def take_map take_zip)

lemma input_window_update:
  assumes "t \<le> i"
  shows "input_window first sp rf t (out[i := g]) = input_window first sp rf t out"
  using assms by (simp add: input_window_def take_history_rows_update)

lemma with_spectral_eq:
  assumes "length out = n" and "spectral_covers sp n" and "0 \<le> a" and "0 \<le> b" and "b \<le> int n"
  shows "with_spectral sp a b (py_slice out a b)
         = Inr (drop (nat a) (take (nat b) (history_rows sp out)))"
proof (cases sp)
  case None
  with assms show ?thesis
    by (simp add: with_spectral_def history_rows_def py_slice_nonneg)
next
  case (Some sd)
  with assms have len: "n \<le> length sd"
    by (simp add: spectral_covers_def)
  have o: "py_slice out a b = drop (nat a) (take (nat b) out)"
    using assms by (intro py_slice_nonneg) simp_all
  have s: "py_slice sd a b = drop (nat a) (take (nat b) sd)"
    using assms len by (intro py_slice_nonneg) simp_all
  have "length (drop (nat a) (take (nat b) out)) = length (drop (nat a) (take (nat b) sd))"
    using assms len by simp
  then show ?thesis
    using Some
    by (simp add: with_spectral_def history_rows_def o s concatenate_axis1_def
        take_map take_zip drop_map drop_zip)
qed

lemma next_input_eq:
  assumes "length out = n" and "i < n" and "spectral_covers sp n"
  shows "next_input sp rf i out = Inr (input_window first sp rf (Suc i) out)"
proof (cases "int i < rf - 1")
  case True
  have "with_spectral sp 0 (int i + 1) (py_slice out 0 (int i + 1))
        = Inr (drop (nat 0) (take (nat (int i + 1)) (history_rows sp out)))"
    using assms by (intro with_spectral_eq [where n = n]) simp_all
  moreover have "nat (int i + 1) = Suc i"
    by simp
  ultimately show ?thesis
    using True by (simp add: next_input_def input_window_def)
next
  case False
  show ?thesis
  proof (cases "0 \<le> int i + 1 - rf")
    case True
    have "with_spectral sp (int i + 1 - rf) (int i + 1) (py_slice out (int i + 1 - rf) (int i + 1))
        = Inr (drop (nat (int i + 1 - rf)) (take (nat (int i + 1)) (history_rows sp out)))"
      using assms True by (intro with_spectral_eq [where n = n]) simp_all
    moreover have "nat (int i + 1) = Suc i"
      by simp
    moreover have "int (Suc i) - rf = int i + 1 - rf"
      by simp
    ultimately show ?thesis
      using False by (simp add: next_input_def input_window_def) (simp add: add.commute)
  next
    case neg: False
    with False show ?thesis by simp
  qed
qed


lemma kill_signal_report_progress [simp]:
  "kill_signal (report_progress c i g) = kill_signal g"
  by (simp add: report_progress_def Let_def)

lemma loop_body_step:
  assumes inv: "loop_inv c first i st" and i: "i < audio_length c"
    and gen: "generator_total (generator c) (channels c)"
    and sp: "spectral_covers (spectral_data c) (audio_length c)"
  shows "\<exists>st'. loop_body c i st
                  = Inr (st', (case gui st of None \<Rightarrow> False | Some g \<Rightarrow> kill_signal g i))
              \<and> loop_inv c first (Suc i) st'
              \<and> gui st' = (case gui st of
                             None \<Rightarrow> None
                           | Some g \<Rightarrow> Some (if kill_signal g i then g else report_progress c i g))"
proof -
  let ?iw = "input_window first (spectral_data c) (receptive_field c)"
  let ?lw = "label_window (label_data c) (receptive_field c)"
  from gen obtain g where g: "generator c i (model_input st) (?lw i) = Inr g"
    and glen: "length g = channels c"
    unfolding generator_total_def by blast
  define out where "out = (output_array st)[i := g]"
  have a: "assign_row (output_array st) i (channels c) g = Inr out"
    by (simp add: assign_row_def glen out_def)
  from inv have olen: "length (output_array st) = audio_length c"
    and clen: "length (predict_calls st) = i"
    and mi: "model_input st = ?iw i (output_array st)"
    and old: "\<And>t. t < i \<Longrightarrow> predict_calls st ! t = (?iw t (output_array st), ?lw t)
                \<and> generator c t (?iw t (output_array st)) (?lw t) = Inr (output_array st ! t)"
    by (simp_all add: loop_inv_def)
  have len: "length out = audio_length c"
    using olen by (simp add: out_def)
  have n: "next_input (spectral_data c) (receptive_field c) i out = Inr (?iw (Suc i) out)"
    using len i sp by (rule next_input_eq)
  define st1 where "st1 = st\<lparr>model_input := ?iw (Suc i) out, output_array := out,
                              predict_calls := predict_calls st @ [(model_input st, ?lw i)]\<rparr>"
  define st' where "st' = (case gui st of
                             None \<Rightarrow> st1
                           | Some g \<Rightarrow> if kill_signal g i then st1
                                       else st1\<lparr>gui := Some (report_progress c i g)\<rparr>)"
  have body: "loop_body c i st
                = Inr (st', (case gui st of None \<Rightarrow> False | Some g \<Rightarrow> kill_signal g i))"
    by (simp add: loop_body_def Let_def g a n st'_def st1_def split: option.splits)
  have fields: "model_input st' = ?iw (Suc i) out" "output_array st' = out"
    "predict_calls st' = predict_calls st @ [(model_input st, ?lw i)]"
    by (simp_all add: st'_def st1_def split: option.splits)
  have gui': "gui st' = (case gui st of
                             None \<Rightarrow> None
                           | Some g \<Rightarrow> Some (if kill_signal g i then g else report_progress c i g))"
    by (simp add: st'_def st1_def split: option.splits)
  have calls: "predict_calls st' ! t = (?iw t out, ?lw t) \<and> generator c t (?iw t out) (?lw t) = Inr (out ! t)"
    if "t < Suc i" for t
  proof (cases "t = i")
    case True
    have "?iw i out = ?iw i (output_array st)"
      unfolding out_def by (rule input_window_update) simp
    with True g mi clen i olen show ?thesis
      by (simp add: fields out_def nth_append)
  next
    case False
    with that have t: "t < i"
      by simp
    have "?iw t out = ?iw t (output_array st)"
      unfolding out_def using t by (intro input_window_update) simp
    moreover have "out ! t = output_array st ! t"
      using False by (simp add: out_def)
    ultimately show ?thesis
      using old [OF t] t clen by (simp add: fields nth_append)
  qed
  have "loop_inv c first (Suc i) st'"
    unfolding loop_inv_def using i len clen calls by (simp add: fields)
  with body gui' show ?thesis
    by blast
qed

lemma inference_loop_done:
  "\<not> i < audio_length c \<Longrightarrow> inference_loop c i st = Inr (st, False)"
  by (simp add: inference_loop.simps)

lemma inference_loop_step:
  "i < audio_length c \<Longrightarrow> loop_body c i st = Inr (st', killed) \<Longrightarrow>
   inference_loop c i st = (if killed then Inr (st', True) else inference_loop c (Suc i) st')"
  by (subst inference_loop.simps) simp

lemma inference_loop_error:
  "i < audio_length c \<Longrightarrow> loop_body c i st = Inl e \<Longrightarrow> inference_loop c i st = Inl e"
  by (subst inference_loop.simps) simp

lemma loop_complete:
  assumes gen: "generator_total (generator c) (channels c)"
    and sp: "spectral_covers (spectral_data c) (audio_length c)"
  shows "loop_inv c first i st \<Longrightarrow>
         (case gui st of None \<Rightarrow> True
          | Some g \<Rightarrow> \<forall>j. i \<le> j \<and> j < audio_length c \<longrightarrow> \<not> kill_signal g j) \<Longrightarrow>
         \<exists>st'. inference_loop c i st = Inr (st', False)
               \<and> loop_inv c first (audio_length c) st'
               \<and> (gui st = None \<longrightarrow> gui st' = None)"
proof (induction "audio_length c - i" arbitrary: i st)
  case 0
  then have "i = audio_length c"
    by (simp add: loop_inv_def)
  with 0 show ?case
    by (simp add: inference_loop_done)
next
  case (Suc n)
  then have i: "i < audio_length c"
    by simp
  from loop_body_step [OF Suc.prems(1) i gen sp] obtain st1
    where body: "loop_body c i st
                  = Inr (st1, (case gui st of None \<Rightarrow> False | Some g \<Rightarrow> kill_signal g i))"
      and inv1: "loop_inv c first (Suc i) st1"
      and gui1: "gui st1 = (case gui st of
                             None \<Rightarrow> None
                           | Some g \<Rightarrow> Some (if kill_signal g i then g else report_progress c i g))"
    by blast
  have nokill: "(case gui st of None \<Rightarrow> False | Some g \<Rightarrow> kill_signal g i) = False"
    using Suc.prems(2) i by (simp split: option.splits)
  have step: "inference_loop c i st = inference_loop c (Suc i) st1"
    using inference_loop_step [OF i body] nokill by simp
  have nokill1: "case gui st1 of None \<Rightarrow> True
          | Some g \<Rightarrow> \<forall>j. Suc i \<le> j \<and> j < audio_length c \<longrightarrow> \<not> kill_signal g j"
    using Suc.prems(2) gui1 by (auto split: option.splits)
  have "n = audio_length c - Suc i"
    using Suc.hyps(2) by simp
  from Suc.hyps(1) [OF this inv1 nokill1]
  have "\<exists>st'. inference_loop c (Suc i) st1 = Inr (st', False)
               \<and> loop_inv c first (audio_length c) st'
               \<and> (gui st1 = None \<longrightarrow> gui st' = None)" .
  with step gui1 show ?case
    by (auto split: option.splits)
qed

lemma loop_killed:
  assumes gen: "generator_total (generator c) (channels c)"
    and sp: "spectral_covers (spectral_data c) (audio_length c)"
    and j: "j < audio_length c"
  shows "loop_inv c first i st \<Longrightarrow> gui st = Some g \<Longrightarrow> i \<le> j \<Longrightarrow> kill_signal g j \<Longrightarrow>
         (\<forall>l. i \<le> l \<and> l < j \<longrightarrow> \<not> kill_signal g l) \<Longrightarrow>
         \<exists>st'. inference_loop c i st = Inr (st', True) \<and> loop_inv c first (Suc j) st'"
proof (induction "j - i" arbitrary: i st g)
  case 0
  then have ij: "i = j"
    by simp
  with j have i: "i < audio_length c"
    by simp
  from loop_body_step [OF "0.prems"(1) i gen sp] "0.prems"(2,4) ij obtain st1
    where body: "loop_body c i st = Inr (st1, True)" and inv1: "loop_inv c first (Suc i) st1"
    by auto
  from inference_loop_step [OF i body] inv1 ij show ?case
    by simp
next
  case (Suc n)
  then have ij: "i < j"
    by simp
  with j have i: "i < audio_length c"
    by simp
  from Suc.prems(5) ij have nk: "\<not> kill_signal g i"
    by simp
  from loop_body_step [OF Suc.prems(1) i gen sp] Suc.prems(2) nk obtain st1
    where body: "loop_body c i st = Inr (st1, False)" and inv1: "loop_inv c first (Suc i) st1"
      and gui1: "gui st1 = Some (report_progress c i g)"
    by auto
  have step: "inference_loop c i st = inference_loop c (Suc i) st1"
    using inference_loop_step [OF i body] by simp
  have "n = j - Suc i"
    using Suc.hyps(2) by simp
  from Suc.hyps(1) [OF this inv1 gui1] ij Suc.prems(4,5)
  have "\<exists>st'. inference_loop c (Suc i) st1 = Inr (st', True) \<and> loop_inv c first (Suc j) st'"
    by simp
  with step show ?case
    by simp
qed


lemma inference_eq:
  assumes "get_generator env self model_type = Inr gen"
    and "0 \<le> fst (channel_counts self model_type)" "0 \<le> snd (channel_counts self model_type)"
  shows "inference env self labels model_type spectral =
     (case inference_loop (run_ctx gen self labels model_type spectral) 0
             (run_start self labels model_type) of
        Inl e \<Rightarrow> Inl e
      | Inr (st, killed) \<Rightarrow>
          if killed
          then Inr \<lparr>returned = None, generator_calls = predict_calls st, screen = gui st\<rparr>
          else Inr \<lparr>returned = Some (output_array st), generator_calls = predict_calls st,
                    screen = map_option
                      (\<lambda>g. g\<lparr>status_text := (status_text g)
                               (fst (snd (progress_widgets model_type)) :=
                                  snd (snd (progress_widgets model_type)) @ '' generation complete'')\<rparr>)
                      (gui st)\<rparr>)"
proof -
  obtain chans init where cc: "channel_counts self model_type = (chans, init)"
    by (cases "channel_counts self model_type")
  obtain bar status stype where pw: "progress_widgets model_type = (bar, status, stype)"
    by (metis prod_cases3)
  show ?thesis
    using assms
    by (auto simp: inference_def run_ctx_def run_start_def Let_def cc pw split: sum.splits)
qed

lemma inference_no_generator:
  "get_generator env self model_type = Inl e \<Longrightarrow> inference env self labels model_type spectral = Inl e"
  by (simp add: inference_def)

lemma inference_bad_channels:
  assumes "get_generator env self model_type = Inr gen"
    and "\<not> (0 \<le> fst (channel_counts self model_type) \<and> 0 \<le> snd (channel_counts self model_type))"
  shows "inference env self labels model_type spectral = Inl ValueError"
proof -
  obtain chans init where cc: "channel_counts self model_type = (chans, init)"
    by (cases "channel_counts self model_type")
  obtain bar status stype where pw: "progress_widgets model_type = (bar, status, stype)"
    by (metis prod_cases3)
  show ?thesis
    using assms by (auto simp: inference_def Let_def cc pw)
qed

lemma run_start_inv:
  "loop_inv (run_ctx gen self labels model_type spectral)
     [replicate (nat (snd (channel_counts self model_type))) 0] 0
     (run_start self labels model_type)"
  by (simp add: loop_inv_def run_ctx_def run_start_def input_window_def)

lemma loop_body_gui:
  assumes "loop_body c i st = Inr (s, k)" and "gui st = Some g"
  shows "k = kill_signal g i" and "gui s = Some (if kill_signal g i then g else report_progress c i g)"
  using assms by (auto simp: loop_body_def Let_def split: sum.splits if_splits)

lemma loop_body_no_gui:
  assumes "loop_body c i st = Inr (s, k)" and "gui st = None"
  shows "\<not> k" and "gui s = None"
  using assms by (auto simp: loop_body_def Let_def split: sum.splits if_splits)

lemma loop_body_erase:
  assumes "gui st = Some g"
  shows "loop_body c i st =
     (case loop_body c i (st\<lparr>gui := None\<rparr>) of
        Inl e \<Rightarrow> Inl e
      | Inr (s, k) \<Rightarrow>
          if kill_signal g i then Inr (s\<lparr>gui := Some g\<rparr>, True)
          else Inr (s\<lparr>gui := Some (report_progress c i g)\<rparr>, False))"
  using assms by (auto simp: loop_body_def Let_def split: sum.splits)

lemma loop_erase:
  "gui st = Some g \<Longrightarrow> (\<forall>j. i \<le> j \<and> j < audio_length c \<longrightarrow> \<not> kill_signal g j) \<Longrightarrow>
   map_sum id (\<lambda>(s, k). (s\<lparr>gui := None\<rparr>, k)) (inference_loop c i st)
     = inference_loop c i (st\<lparr>gui := None\<rparr>)"
proof (induction "audio_length c - i" arbitrary: i st g)
  case 0
  then show ?case
    by (simp add: inference_loop_done)
next
  case (Suc n)
  then have i: "i < audio_length c"
    by simp
  with Suc.prems have nk: "\<not> kill_signal g i"
    by simp
  show ?case
  proof (cases "loop_body c i (st\<lparr>gui := None\<rparr>)")
    case (Inl e)
    with loop_body_erase [OF Suc.prems(1), of c i] have "loop_body c i st = Inl e"
      by simp
    with Inl i show ?thesis
      by (simp add: inference_loop_error)
  next
    case (Inr sk)
    obtain s k where sk: "sk = (s, k)"
      by (cases sk)
    from Inr sk have b0: "loop_body c i (st\<lparr>gui := None\<rparr>) = Inr (s, k)"
      by simp
    from loop_body_no_gui [OF b0] have k: "\<not> k" and gs: "gui s = None"
      by simp_all
    define s1 where "s1 = s\<lparr>gui := Some (report_progress c i g)\<rparr>"
    from loop_body_erase [OF Suc.prems(1), of c i] b0 nk have b1: "loop_body c i st = Inr (s1, False)"
      by (simp add: s1_def)
    have e: "s1\<lparr>gui := None\<rparr> = s"
      using gs by (simp add: s1_def)
    have l0: "inference_loop c i (st\<lparr>gui := None\<rparr>) = inference_loop c (Suc i) s"
      using inference_loop_step [OF i b0] k by simp
    have l1: "inference_loop c i st = inference_loop c (Suc i) s1"
      using inference_loop_step [OF i b1] by simp
    have "n = audio_length c - Suc i"
      using Suc.hyps(2) by simp
    moreover have "gui s1 = Some (report_progress c i g)"
      by (simp add: s1_def)
    moreover have "\<forall>j. Suc i \<le> j \<and> j < audio_length c \<longrightarrow> \<not> kill_signal (report_progress c i g) j"
      using Suc.prems(2) by simp
    ultimately have "map_sum id (\<lambda>(s, k). (s\<lparr>gui := None\<rparr>, k)) (inference_loop c (Suc i) s1)
        = inference_loop c (Suc i) (s1\<lparr>gui := None\<rparr>)"
      by (rule Suc.hyps(1))
    with l0 l1 e show ?thesis
      by simp
  qed
qed

lemma loop_kill_not_completed:
  "gui st = Some g \<Longrightarrow> i \<le> j \<Longrightarrow> j < audio_length c \<Longrightarrow> kill_signal g j \<Longrightarrow>
   inference_loop c i st \<noteq> Inr (s, False)"
proof (induction "j - i" arbitrary: i st g)
  case 0
  then have i: "i < audio_length c" and ki: "kill_signal g i"
    by simp_all
  show ?case
  proof (cases "loop_body c i st")
    case (Inl e)
    with i show ?thesis
      by (simp add: inference_loop_error)
  next
    case (Inr sk)
    obtain s' k where "sk = (s', k)"
      by (cases sk)
    with Inr have b: "loop_body c i st = Inr (s', k)"
      by simp
    from loop_body_gui(1) [OF b "0.prems"(1)] ki have "k"
      by simp
    with inference_loop_step [OF i b] show ?thesis
      by simp
  qed
next
  case (Suc n)
  then have i: "i < audio_length c" and ij: "Suc i \<le> j"
    by simp_all
  show ?case
  proof (cases "loop_body c i st")
    case (Inl e)
    with i show ?thesis
      by (simp add: inference_loop_error)
  next
    case (Inr sk)
    obtain s' k where "sk = (s', k)"
      by (cases sk)
    with Inr have b: "loop_body c i st = Inr (s', k)"
      by simp
    show ?thesis
    proof (cases k)
      case True
      with inference_loop_step [OF i b] show ?thesis
        by simp
    next
      case False
      with loop_body_gui [OF b Suc.prems(1)] have g': "gui s' = Some (report_progress c i g)"
        by simp
      have "n = j - Suc i"
        using Suc.hyps(2) by simp
      from Suc.hyps(1) [OF this g' ij Suc.prems(3)] Suc.prems(4)
      have "inference_loop c (Suc i) s' \<noteq> Inr (s, False)"
        by simp
      with inference_loop_step [OF i b] False show ?thesis
        by simp
    qed
  qed
qed

section \<open>Properties of inference\<close>

lemma get_generator_gen_gui [simp]:
  "get_generator env (self\<lparr>gen_gui := x\<rparr>) model_type = get_generator env self model_type"
  by (simp add: get_generator_def)

lemma channel_counts_gen_gui [simp]:
  "channel_counts (self\<lparr>gen_gui := x\<rparr>) model_type = channel_counts self model_type"
  by (simp add: channel_counts_def)

lemma get_receptive_field_gen_gui [simp]:
  "get_receptive_field (self\<lparr>gen_gui := x\<rparr>) model_type = get_receptive_field self model_type"
  by (simp add: get_receptive_field_def params_of_def)

lemma run_ctx_gen_gui [simp]:
  "run_ctx gen (self\<lparr>gen_gui := x\<rparr>) labels model_type spectral
     = run_ctx gen self labels model_type spectral"
  by (simp add: run_ctx_def)

lemma run_start_gen_gui:
  "run_start (self\<lparr>gen_gui := x\<rparr>) labels model_type
     = (run_start self labels model_type)\<lparr>gui := x\<rparr>"
  by (simp add: run_start_def)

lemma length_history_rows:
  assumes "length out = n" and "spectral_covers sp n"
  shows "length (history_rows sp out) = n"
  using assms by (cases sp) (simp_all add: history_rows_def spectral_covers_def)

lemma inference_completed:
  assumes gen: "get_generator env self model_type = Inr gen"
    and cc: "0 \<le> fst (channel_counts self model_type)" "0 \<le> snd (channel_counts self model_type)"
    and total: "generator_total gen (nat (fst (channel_counts self model_type)))"
    and sp: "spectral_covers spectral (length labels)"
    and nokill: "case gen_gui self of None \<Rightarrow> True
                 | Some g \<Rightarrow> \<forall>i<length labels. \<not> kill_signal g i"
  shows "\<exists>r out. inference env self labels model_type spectral = Inr r
           \<and> returned r = Some out \<and> length out = length labels
           \<and> length (generator_calls r) = length labels
           \<and> (gen_gui self = None \<longrightarrow> screen r = None)
           \<and> (\<forall>t<length labels.
                 generator_calls r ! t =
                   (input_window [replicate (nat (snd (channel_counts self model_type))) 0] spectral
                      (get_receptive_field self model_type) t out,
                    label_window labels (get_receptive_field self model_type) t)
                 \<and> gen t
                     (input_window [replicate (nat (snd (channel_counts self model_type))) 0] spectral
                        (get_receptive_field self model_type) t out)
                     (label_window labels (get_receptive_field self model_type) t)
                   = Inr (out ! t))"
proof -
  define c where "c = run_ctx gen self labels model_type spectral"
  define st0 where "st0 = run_start self labels model_type"
  define first where "first = [replicate (nat (snd (channel_counts self model_type))) (0::real)]"
  have c: "generator c = gen" "channels c = nat (fst (channel_counts self model_type))"
    "audio_length c = length labels" "spectral_data c = spectral" "label_data c = labels"
    "receptive_field c = get_receptive_field self model_type"
    by (simp_all add: c_def run_ctx_def)
  have inv0: "loop_inv c first 0 st0"
    unfolding c_def st0_def first_def by (rule run_start_inv)
  have nk: "case gui st0 of None \<Rightarrow> True
            | Some g \<Rightarrow> \<forall>j. 0 \<le> j \<and> j < audio_length c \<longrightarrow> \<not> kill_signal g j"
    using nokill by (simp add: st0_def run_start_def c split: option.splits)
  have "\<exists>st'. inference_loop c 0 st0 = Inr (st', False)
               \<and> loop_inv c first (audio_length c) st'
               \<and> (gui st0 = None \<longrightarrow> gui st' = None)"
    using _ _ inv0 nk by (rule loop_complete) (simp_all add: c total sp)
  then obtain st'
    where loop: "inference_loop c 0 st0 = Inr (st', False)"
      and inv: "loop_inv c first (length labels) st'"
      and g: "gui st0 = None \<longrightarrow> gui st' = None"
    unfolding c by (elim exE conjE)
  have inf: "inference env self labels model_type spectral
        = Inr \<lparr>returned = Some (output_array st'), generator_calls = predict_calls st',
               screen = map_option
                      (\<lambda>g. g\<lparr>status_text := (status_text g)
                               (fst (snd (progress_widgets model_type)) :=
                                  snd (snd (progress_widgets model_type)) @ '' generation complete'')\<rparr>)
                      (gui st')\<rparr>"
    using inference_eq [OF gen cc, of labels spectral] loop
    by (simp add: c_def st0_def)
  have "gui st0 = gen_gui self"
    by (simp add: st0_def run_start_def)
  with inf inv g show ?thesis
    by (simp add: loop_inv_def c first_def)
qed


lemma example_generator_value:
  "example_generator call window labels = Inr [1]"
  by (simp add: example_generator_def example_network_def
      sample_output_def uniform_mixture_def fixed_draws_def Let_def
      zeros_like_def random_uniform_def random_normal_def mask_of_def mask_set_of_def
      t_add_def t_mul_def k_less_def greater_equal_def logical_and_def cast_float64_def
      numeral_eq_Suc)

lemma example_generator_total: "generator_total example_generator 1"
  by (simp add: generator_total_def example_generator_value)

lemma example_channel_counts: "channel_counts (example_model\<lparr>gen_gui := x\<rparr>) 0 = (1, 1)"
  by (simp add: channel_counts_def example_model_def)

lemma example_receptive_field: "get_receptive_field (example_model\<lparr>gen_gui := x\<rparr>) 0 = 5"
  by (simp add: get_receptive_field_def params_of_def example_model_def example_params_def
      receptive_field_of_closed)

text \<open>
  Claim C5 fails as stated: with receptive field 5 and two labels, the input
  window of step 0 has one row and the input window of step 1 has two rows
  (one row of zeros and the row generated in step 0), so the shape of the
  input is not the same at every step.
\<close>

theorem inference_window_shape_counterexample:
  "inference example_env example_model [[0], [0]] 0 None =
     Inr \<lparr>returned = Some [[1], [1]],
          generator_calls = [([[0]], [[0]]), ([[0], [1]], [[0], [0]])],
          screen = None\<rparr>
   \<and> map (length \<circ> fst)
         (generator_calls (projr (inference example_env example_model [[0], [0]] 0 None)))
       = [1, 2]"
proof -
  have cc: "channel_counts example_model 0 = (1, 1)"
    by (simp add: channel_counts_def example_model_def)
  have rf: "get_receptive_field example_model 0 = 5"
    by (simp add: get_receptive_field_def params_of_def example_model_def example_params_def
      receptive_field_of_closed)
  have g: "gen_gui example_model = None"
    by (simp add: example_model_def)
  have "inference example_env example_model [[0], [0]] 0 None =
     Inr \<lparr>returned = Some [[1], [1]],
          generator_calls = [([[0]], [[0]]), ([[0], [1]], [[0], [0]])],
          screen = None\<rparr>"
    by (simp add: inference_eq [OF get_generator_example] cc rf g run_ctx_def run_start_def
        inference_loop.simps [of _ 0] inference_loop.simps [of _ "Suc 0"]
        inference_loop.simps [of _ "Suc (Suc 0)"]
        loop_body_def Let_def example_generator_value label_window_def py_slice_def
        assign_row_def next_input_def with_spectral_def np_pad_top_def)
  then show ?thesis
    by simp
qed

lemma np_pad_top_take:
  assumes "0 < t" and "t \<le> length rows"
  shows "np_pad_top (take t rows) = replicate (length (rows ! 0)) 0 # take t rows"
proof -
  from assms obtain r rs where "rows = r # rs"
    by (cases rows) auto
  moreover from assms obtain t' where "t = Suc t'"
    by (cases t) auto
  ultimately show ?thesis
    by (simp add: np_pad_top_def)
qed

lemma trailing_window:
  assumes "1 \<le> R" and "R \<le> int t" and "t \<le> length rows"
  shows "length (drop (nat (int t - R)) (take t rows)) = nat R"
    and "\<forall>j<nat R. drop (nat (int t - R)) (take t rows) ! j = rows ! (t - nat R + j)"
proof -
  from assms have k: "nat (int t - R) = t - nat R" and le: "nat R \<le> t"
    by linarith+
  from assms le show "length (drop (nat (int t - R)) (take t rows)) = nat R"
    by (simp add: k)
  show "\<forall>j<nat R. drop (nat (int t - R)) (take t rows) ! j = rows ! (t - nat R + j)"
  proof (intro allI impI)
    fix j assume "j < nat R"
    with le assms(3) show "drop (nat (int t - R)) (take t rows) ! j = rows ! (t - nat R + j)"
      by (simp add: k)
  qed
qed

text \<open>
  Claim C5, as the code has it.  In every run that completes (the generator is
  loaded and answers every call with a row of the output width, companion data
  has a row for every step when it is given, and no kill signal is seen), the
  returned output has as many rows as there are labels and the generator is
  called once per step.  At step \<open>t\<close> the label window is the slice
  \<open>[max(0, t + 1 - R), t + 1)\<close> of the labels, the generator's answer is row
  \<open>t\<close> of the output, and the input window is: one row of zeros at step 0;
  for \<open>0 < t < R\<close> exactly one row of zeros followed by the \<open>t\<close> rows generated so
  far, so its length \<open>t + 1\<close> grows with every step and is not padded to \<open>R\<close>;
  for \<open>t \<ge> R\<close> the rows generated at the steps \<open>t - R\<close> to \<open>t - 1\<close>, which for
  \<open>R \<ge> 1\<close> are \<open>R\<close> rows with no padding.  With companion data each row is
  followed by the companion channels of its step.
\<close>

theorem inference_windows:
  assumes gen: "get_generator env self model_type = Inr gen"
    and cc: "0 \<le> fst (channel_counts self model_type)" "0 \<le> snd (channel_counts self model_type)"
    and total: "generator_total gen (nat (fst (channel_counts self model_type)))"
    and sp: "spectral_covers spectral (length labels)"
    and nokill: "case gen_gui self of None \<Rightarrow> True
                 | Some g \<Rightarrow> \<forall>i<length labels. \<not> kill_signal g i"
  shows "\<exists>r out. inference env self labels model_type spectral = Inr r
           \<and> returned r = Some out \<and> length out = length labels
           \<and> length (generator_calls r) = length labels
           \<and> (\<forall>t<length labels.
                 (let R = get_receptive_field self model_type;
                      rows = history_rows spectral out;
                      window = fst (generator_calls r ! t);
                      lab = snd (generator_calls r ! t)
                  in lab = py_slice labels (max 0 (int t + 1 - R)) (int t + 1)
                   \<and> gen t window lab = Inr (out ! t)
                   \<and> (t = 0 \<longrightarrow> window = [replicate (nat (snd (channel_counts self model_type))) 0])
                   \<and> (0 < t \<and> int t < R \<longrightarrow>
                        window = replicate (length (rows ! 0)) 0 # take t rows)
                   \<and> (0 < t \<and> R \<le> int t \<longrightarrow> window = drop (nat (int t - R)) (take t rows))
                   \<and> (1 \<le> R \<and> R \<le> int t \<longrightarrow>
                        length window = nat R
                        \<and> (\<forall>j<nat R. window ! j = rows ! (t - nat R + j)))))"
proof -
  define R where "R = get_receptive_field self model_type"
  define first where "first = [replicate (nat (snd (channel_counts self model_type))) (0::real)]"
  from inference_completed [OF gen cc total sp nokill] obtain r out
    where r: "inference env self labels model_type spectral = Inr r"
      "returned r = Some out" "length out = length labels"
      "length (generator_calls r) = length labels"
      and calls: "\<And>t. t < length labels \<Longrightarrow>
                 generator_calls r ! t = (input_window first spectral R t out, label_window labels R t)
                 \<and> gen t (input_window first spectral R t out) (label_window labels R t)
                   = Inr (out ! t)"
    unfolding R_def first_def by (elim exE conjE) blast
  define rows where "rows = history_rows spectral out"
  have rlen: "length rows = length labels"
    unfolding rows_def using r(3) sp by (rule length_history_rows)
  have step: "snd (generator_calls r ! t) = py_slice labels (max 0 (int t + 1 - R)) (int t + 1)
        \<and> gen t (fst (generator_calls r ! t)) (snd (generator_calls r ! t)) = Inr (out ! t)
        \<and> (t = 0 \<longrightarrow> fst (generator_calls r ! t) = first)
        \<and> (0 < t \<and> int t < R \<longrightarrow>
              fst (generator_calls r ! t) = replicate (length (rows ! 0)) 0 # take t rows)
        \<and> (0 < t \<and> R \<le> int t \<longrightarrow>
              fst (generator_calls r ! t) = drop (nat (int t - R)) (take t rows))
        \<and> (1 \<le> R \<and> R \<le> int t \<longrightarrow>
              length (fst (generator_calls r ! t)) = nat R
              \<and> (\<forall>j<nat R. fst (generator_calls r ! t) ! j = rows ! (t - nat R + j)))"
    if t: "t < length labels" for t
  proof -
    from calls [OF t] have w: "fst (generator_calls r ! t) = input_window first spectral R t out"
      and l: "snd (generator_calls r ! t) = label_window labels R t"
      and g: "gen t (input_window first spectral R t out) (label_window labels R t) = Inr (out ! t)"
      by simp_all
    have tl: "t \<le> length rows"
      using t rlen by simp
    have a: "snd (generator_calls r ! t) = py_slice labels (max 0 (int t + 1 - R)) (int t + 1)"
      using l by (simp add: label_window_eq)
    have b: "gen t (fst (generator_calls r ! t)) (snd (generator_calls r ! t)) = Inr (out ! t)"
      using g w l by simp
    have c: "fst (generator_calls r ! t) = first" if "t = 0"
      using that w by (simp add: input_window_def)
    have d: "fst (generator_calls r ! t) = replicate (length (rows ! 0)) 0 # take t rows"
      if "0 < t" "int t < R"
      using that w np_pad_top_take [OF that(1) tl] by (simp add: input_window_def rows_def)
    have e: "fst (generator_calls r ! t) = drop (nat (int t - R)) (take t rows)"
      if "0 < t" "R \<le> int t"
      using that w by (simp add: input_window_def rows_def)
    have f: "length (fst (generator_calls r ! t)) = nat R
              \<and> (\<forall>j<nat R. fst (generator_calls r ! t) ! j = rows ! (t - nat R + j))"
      if "1 \<le> R" "R \<le> int t"
    proof -
      from that have "0 < t"
        by linarith
      from e [OF this that(2)] trailing_window [OF that tl] show ?thesis
        by simp
    qed
    from a b c d e f show ?thesis
      by blast
  qed
  show ?thesis
    using r step unfolding Let_def R_def rows_def first_def
    by (intro exI [of _ r] exI [of _ out] conjI allI impI) blast+
qed


theorem inference_windows_witness:
  "\<exists>r out. inference example_env example_model (replicate 7 [0]) 0 None = Inr r
      \<and> returned r = Some out \<and> length out = 7 \<and> length (generator_calls r) = 7
      \<and> snd (generator_calls r ! 6) = py_slice (replicate 7 [0]) 2 7
      \<and> fst (generator_calls r ! 0) = [[0]]
      \<and> fst (generator_calls r ! 2) = replicate (length (out ! 0)) 0 # take 2 out
      \<and> fst (generator_calls r ! 6) = drop 1 (take 6 out)
      \<and> length (fst (generator_calls r ! 6)) = 5"
proof -
  have cc: "channel_counts example_model 0 = (1, 1)"
    by (simp add: channel_counts_def example_model_def)
  have rf: "get_receptive_field example_model 0 = 5"
    by (simp add: get_receptive_field_def params_of_def example_model_def example_params_def
      receptive_field_of_closed)
  have a: "0 \<le> fst (channel_counts example_model 0)" "0 \<le> snd (channel_counts example_model 0)"
    by (simp_all add: cc)
  have b: "generator_total example_generator (nat (fst (channel_counts example_model 0)))"
    using example_generator_total by (simp add: cc)
  have c: "spectral_covers None (length (replicate 7 [0::real]))"
    by (simp add: spectral_covers_def)
  have d: "case gen_gui example_model of None \<Rightarrow> True
           | Some g \<Rightarrow> \<forall>i<length (replicate 7 [0::real]). \<not> kill_signal g i"
    by (simp add: example_model_def)
  from inference_windows [OF get_generator_example a b c d] obtain r out
    where r: "inference example_env example_model (replicate 7 [0]) 0 None = Inr r"
      "returned r = Some out" "length out = 7" "length (generator_calls r) = 7"
      and w: "\<And>t. t < 7 \<Longrightarrow>
                 (let R = get_receptive_field example_model 0;
                      rows = history_rows None out;
                      window = fst (generator_calls r ! t);
                      lab = snd (generator_calls r ! t)
                  in lab = py_slice (replicate 7 [0]) (max 0 (int t + 1 - R)) (int t + 1)
                   \<and> example_generator t window lab = Inr (out ! t)
                   \<and> (t = 0 \<longrightarrow> window = [replicate (nat (snd (channel_counts example_model 0))) 0])
                   \<and> (0 < t \<and> int t < R \<longrightarrow>
                        window = replicate (length (rows ! 0)) 0 # take t rows)
                   \<and> (0 < t \<and> R \<le> int t \<longrightarrow> window = drop (nat (int t - R)) (take t rows))
                   \<and> (1 \<le> R \<and> R \<le> int t \<longrightarrow>
                        length window = nat R
                        \<and> (\<forall>j<nat R. window ! j = rows ! (t - nat R + j))))"
    by (elim exE conjE) simp
  from w [of 0] have w0: "fst (generator_calls r ! 0) = [[0]]"
    by (simp add: Let_def cc)
  from w [of 2] have w2: "fst (generator_calls r ! 2) = replicate (length (out ! 0)) 0 # take 2 out"
    by (simp add: Let_def rf history_rows_def)
  from w [of 6] r(3) have w6: "snd (generator_calls r ! 6) = py_slice (replicate 7 [0]) 2 7"
    "fst (generator_calls r ! 6) = drop 1 (take 6 out)" "length (fst (generator_calls r ! 6)) = 5"
    by (simp_all add: Let_def rf history_rows_def)
  from r w0 w2 w6 show ?thesis
    by blast
qed

text \<open>
  Claim C7.  When the screen is attached and the read of \<open>kill_signal\<close> in some
  iteration \<open>i\<close> below the number of labels sees the signal, \<open>inference\<close> never
  returns an output array: whatever it returns is \<open>None\<close>.  When nothing else
  fails it does return \<open>None\<close>, after at most \<open>i + 1\<close> calls of the generator,
  and after exactly \<open>i + 1\<close> when no earlier read saw the signal.  A run over no
  labels returns the empty array, which is not \<open>None\<close>.  An instance raises the
  signal in iteration 5 of 100.
\<close>

theorem inference_cancelled:
  assumes gui: "gen_gui self = Some g" and i: "i < length labels" and kill: "kill_signal g i"
  shows "(\<forall>r. inference env self labels model_type spectral = Inr r \<longrightarrow> returned r = None)
       \<and> (get_generator env self model_type = Inr gen
            \<and> 0 \<le> fst (channel_counts self model_type) \<and> 0 \<le> snd (channel_counts self model_type)
            \<and> generator_total gen (nat (fst (channel_counts self model_type)))
            \<and> spectral_covers spectral (length labels)
          \<longrightarrow> (\<exists>r. inference env self labels model_type spectral = Inr r
                  \<and> returned r = None
                  \<and> length (generator_calls r) \<le> Suc i
                  \<and> ((\<forall>j<i. \<not> kill_signal g j) \<longrightarrow> length (generator_calls r) = Suc i)))
       \<and> (get_generator env self model_type = Inr gen
            \<and> 0 \<le> fst (channel_counts self model_type) \<and> 0 \<le> snd (channel_counts self model_type)
          \<longrightarrow> (\<exists>r. inference env self [] model_type spectral = Inr r \<and> returned r = Some []))"
proof -
  have never: "returned r = None" if r: "inference env self labels model_type spectral = Inr r" for r
  proof (cases "get_generator env self model_type")
    case (Inl e)
    with r show ?thesis
      by (simp add: inference_no_generator)
  next
    case (Inr gen')
    show ?thesis
    proof (cases "0 \<le> fst (channel_counts self model_type) \<and> 0 \<le> snd (channel_counts self model_type)")
      case False
      with inference_bad_channels [OF Inr] r show ?thesis
        by simp
    next
      case True
      define c where "c = run_ctx gen' self labels model_type spectral"
      define st0 where "st0 = run_start self labels model_type"
      have "gui st0 = Some g" and "i < audio_length c"
        using gui i by (simp_all add: st0_def run_start_def c_def run_ctx_def)
      then have "inference_loop c 0 st0 \<noteq> Inr (s, False)" for s
        using kill by (intro loop_kill_not_completed [where j = i]) simp_all
      with r show ?thesis
        using True
        by (auto simp: inference_eq [OF Inr] c_def st0_def split: sum.splits if_splits)
    qed
  qed
  have stops: "\<exists>r. inference env self labels model_type spectral = Inr r
                  \<and> returned r = None
                  \<and> length (generator_calls r) \<le> Suc i
                  \<and> ((\<forall>j<i. \<not> kill_signal g j) \<longrightarrow> length (generator_calls r) = Suc i)"
    if gen: "get_generator env self model_type = Inr gen"
      and cc: "0 \<le> fst (channel_counts self model_type)" "0 \<le> snd (channel_counts self model_type)"
      and total: "generator_total gen (nat (fst (channel_counts self model_type)))"
      and sp: "spectral_covers spectral (length labels)"
  proof -
    define c where "c = run_ctx gen self labels model_type spectral"
    define st0 where "st0 = run_start self labels model_type"
    define first where "first = [replicate (nat (snd (channel_counts self model_type))) (0::real)]"
    define j where "j = (LEAST j. kill_signal g j)"
    have kj: "kill_signal g j"
      unfolding j_def using kill by (rule LeastI)
    have ji: "j \<le> i"
      unfolding j_def using kill by (rule Least_le)
    have before: "\<forall>l. 0 \<le> l \<and> l < j \<longrightarrow> \<not> kill_signal g l"
      unfolding j_def using not_less_Least by blast
    have c: "generator c = gen" "channels c = nat (fst (channel_counts self model_type))"
      "audio_length c = length labels" "spectral_data c = spectral"
      by (simp_all add: c_def run_ctx_def)
    have inv0: "loop_inv c first 0 st0"
      unfolding c_def st0_def first_def by (rule run_start_inv)
    have g0: "gui st0 = Some g"
      using gui by (simp add: st0_def run_start_def)
    have "\<exists>st'. inference_loop c 0 st0 = Inr (st', True) \<and> loop_inv c first (Suc j) st'"
      using _ _ _ inv0 g0 _ kj before
      by (rule loop_killed) (use ji i in \<open>simp_all add: c total sp\<close>)
    then obtain st' where loop: "inference_loop c 0 st0 = Inr (st', True)"
      and inv: "loop_inv c first (Suc j) st'"
      by (elim exE conjE)
    have inf: "inference env self labels model_type spectral
        = Inr \<lparr>returned = None, generator_calls = predict_calls st', screen = gui st'\<rparr>"
      using inference_eq [OF gen cc, of labels spectral] loop
      by (simp add: c_def st0_def)
    have len: "length (predict_calls st') = Suc j"
      using inv by (simp add: loop_inv_def)
    have "j = i" if "\<forall>l<i. \<not> kill_signal g l"
      using that kj ji by (cases "j < i") auto
    with inf len ji show ?thesis
      by auto
  qed
  have empty: "\<exists>r. inference env self [] model_type spectral = Inr r \<and> returned r = Some []"
    if gen: "get_generator env self model_type = Inr gen"
      and cc: "0 \<le> fst (channel_counts self model_type)" "0 \<le> snd (channel_counts self model_type)"
    using inference_eq [OF gen cc, of "[]" spectral]
    by (simp add: inference_loop_done run_ctx_def run_start_def)
  from never stops empty show ?thesis
    by blast
qed


theorem inference_cancelled_witness:
  "(\<exists>r. inference example_env (example_model\<lparr>gen_gui := Some example_gui\<rparr>)
           (replicate 100 [0]) 0 None = Inr r
        \<and> returned r = None \<and> length (generator_calls r) = 6)
   \<and> (\<exists>r. inference example_env (example_model\<lparr>gen_gui := Some example_gui\<rparr>) [] 0 None = Inr r
        \<and> returned r = Some [])"
proof -
  let ?self = "example_model\<lparr>gen_gui := Some example_gui\<rparr>"
  have a: "gen_gui ?self = Some example_gui"
    by simp
  have b: "5 < length (replicate 100 [0::real])"
    by simp
  have c: "kill_signal example_gui 5"
    by (simp add: example_gui_def)
  have g: "get_generator example_env ?self 0 = Inr example_generator"
    by (simp add: get_generator_example)
  have cc: "channel_counts example_model 0 = (1, 1)"
    by (simp add: channel_counts_def example_model_def)
  have t: "generator_total example_generator (nat (fst (channel_counts ?self 0)))"
    using example_generator_total by (simp add: cc)
  have s: "spectral_covers None (length (replicate 100 [0::real]))"
    by (simp add: spectral_covers_def)
  have first: "\<forall>j<5. \<not> kill_signal example_gui j"
    by (simp add: example_gui_def)
  from inference_cancelled [OF a b c, of example_env 0 None example_generator] g t s first
  show ?thesis
    by (auto simp: cc)
qed

text \<open>
  Claim C9.  When no read of \<open>kill_signal\<close> sees the signal, the run with the
  screen attached and the run without it, on the same model, labels, companion
  data and random draws, end in the same error or return the same output after
  the same calls of the generator: the writes of the progress bar and of the
  status text change neither.  Without the screen the run completes and
  returns an output row for every label whenever the generator is loaded and
  answers every call.
\<close>

theorem inference_progress_independent:
  assumes nokill: "\<forall>i<length labels. \<not> kill_signal g i"
  shows "map_sum id (\<lambda>r. (returned r, generator_calls r))
           (inference env (self\<lparr>gen_gui := Some g\<rparr>) labels model_type spectral)
         = map_sum id (\<lambda>r. (returned r, generator_calls r))
             (inference env (self\<lparr>gen_gui := None\<rparr>) labels model_type spectral)
       \<and> (get_generator env self model_type = Inr gen
            \<and> 0 \<le> fst (channel_counts self model_type) \<and> 0 \<le> snd (channel_counts self model_type)
            \<and> generator_total gen (nat (fst (channel_counts self model_type)))
            \<and> spectral_covers spectral (length labels)
          \<longrightarrow> (\<exists>r out. inference env (self\<lparr>gen_gui := None\<rparr>) labels model_type spectral = Inr r
                  \<and> returned r = Some out \<and> length out = length labels \<and> screen r = None))"
proof -
  let ?with = "self\<lparr>gen_gui := Some g\<rparr>" and ?without = "self\<lparr>gen_gui := None\<rparr>"
  have same: "map_sum id (\<lambda>r. (returned r, generator_calls r))
           (inference env ?with labels model_type spectral)
         = map_sum id (\<lambda>r. (returned r, generator_calls r))
             (inference env ?without labels model_type spectral)"
  proof (cases "get_generator env self model_type")
    case (Inl e)
    then show ?thesis
      by (simp add: inference_no_generator)
  next
    case (Inr gen')
    show ?thesis
    proof (cases "0 \<le> fst (channel_counts self model_type) \<and> 0 \<le> snd (channel_counts self model_type)")
      case False
      then show ?thesis
        using inference_bad_channels [of env ?with model_type gen' labels spectral]
          inference_bad_channels [of env ?without model_type gen' labels spectral] Inr
        by simp
    next
      case True
      define c where "c = run_ctx gen' self labels model_type spectral"
      define st where "st = run_start ?with labels model_type"
      have st0: "run_start ?without labels model_type = st\<lparr>gui := None\<rparr>"
        by (simp add: st_def run_start_def)
      have "gui st = Some g"
        by (simp add: st_def run_start_def)
      moreover have "\<forall>j. 0 \<le> j \<and> j < audio_length c \<longrightarrow> \<not> kill_signal g j"
        using nokill by (simp add: c_def run_ctx_def)
      ultimately have sim: "map_sum id (\<lambda>(s, k). (s\<lparr>gui := None\<rparr>, k)) (inference_loop c 0 st)
          = inference_loop c 0 (st\<lparr>gui := None\<rparr>)"
        by (rule loop_erase)
      have w: "inference env ?with labels model_type spectral =
         (case inference_loop c 0 st of
            Inl e \<Rightarrow> Inl e
          | Inr (s, killed) \<Rightarrow>
              if killed
              then Inr \<lparr>returned = None, generator_calls = predict_calls s, screen = gui s\<rparr>
              else Inr \<lparr>returned = Some (output_array s), generator_calls = predict_calls s,
                    screen = map_option
                      (\<lambda>g. g\<lparr>status_text := (status_text g)
                               (fst (snd (progress_widgets model_type)) :=
                                  snd (snd (progress_widgets model_type)) @ '' generation complete'')\<rparr>)
                      (gui s)\<rparr>)"
        using inference_eq [of env ?with model_type gen' labels spectral] Inr True
        by (simp add: c_def st_def)
      have wo: "inference env ?without labels model_type spectral =
         (case inference_loop c 0 (st\<lparr>gui := None\<rparr>) of
            Inl e \<Rightarrow> Inl e
          | Inr (s, killed) \<Rightarrow>
              if killed
              then Inr \<lparr>returned = None, generator_calls = predict_calls s, screen = gui s\<rparr>
              else Inr \<lparr>returned = Some (output_array s), generator_calls = predict_calls s,
                    screen = map_option
                      (\<lambda>g. g\<lparr>status_text := (status_text g)
                               (fst (snd (progress_widgets model_type)) :=
                                  snd (snd (progress_widgets model_type)) @ '' generation complete'')\<rparr>)
                      (gui s)\<rparr>)"
        using inference_eq [of env ?without model_type gen' labels spectral] Inr True
        by (simp add: c_def st0)
      show ?thesis
        unfolding w wo sim [symmetric]
        by (cases "inference_loop c 0 st") (auto split: prod.splits)
    qed
  qed
  have absent: "\<exists>r out. inference env ?without labels model_type spectral = Inr r
                  \<and> returned r = Some out \<and> length out = length labels \<and> screen r = None"
    if "get_generator env self model_type = Inr gen"
      "0 \<le> fst (channel_counts self model_type)" "0 \<le> snd (channel_counts self model_type)"
      "generator_total gen (nat (fst (channel_counts self model_type)))"
      "spectral_covers spectral (length labels)"
    using inference_completed [of env ?without model_type gen spectral labels] that
    by auto
  from same absent show ?thesis
    by blast
qed

theorem inference_progress_independent_witness:
  "map_sum id (\<lambda>r. (returned r, generator_calls r))
     (inference example_env (example_model\<lparr>gen_gui := Some (example_gui\<lparr>kill_signal := (\<lambda>_. False)\<rparr>)\<rparr>)
        [[0], [0]] 0 None)
   = map_sum id (\<lambda>r. (returned r, generator_calls r))
       (inference example_env (example_model\<lparr>gen_gui := None\<rparr>) [[0], [0]] 0 None)
   \<and> (\<exists>r out. inference example_env (example_model\<lparr>gen_gui := None\<rparr>) [[0], [0]] 0 None = Inr r
         \<and> returned r = Some out \<and> length out = length [[0::real], [0]] \<and> screen r = None)"
proof -
  have a: "\<forall>i<length [[0::real], [0]]. \<not> kill_signal (example_gui\<lparr>kill_signal := (\<lambda>_. False)\<rparr>) i"
    by simp
  have cc: "channel_counts example_model 0 = (1, 1)"
    by (simp add: channel_counts_def example_model_def)
  have t: "generator_total example_generator (nat (fst (channel_counts example_model 0)))"
    using example_generator_total by (simp add: cc)
  have s: "spectral_covers None (length [[0::real], [0]])"
    by (simp add: spectral_covers_def)
  from inference_progress_independent
    [OF a, of example_env example_model 0 None example_generator]
    get_generator_example t s
  show ?thesis
    by (auto simp: cc)
qed


end
